theory Spec2Isabelle
  imports Complex_Main "HOL-Library.AList" "HOL-Library.Multiset"
begin

section \<open>Data model\<close>

text \<open>
  JavaScript strings are sequences of UTF-16 code units; the player names of this
  repository are Cyrillic, so a string is modelled as the list of its code unit values.
  JavaScript numbers are modelled by their mathematical values: scores, counters and
  rating changes are integers, ratings and expected scores are reals. The win rate of
  the earlier tournament page, where the doubles of the source round another way than
  the exact values, is a parameter of the model.
\<close>

type_synonym jstring = "nat list"

datatype ident = IdNum int | IdStr jstring

text \<open>
  A match as both engines receive it. \<open>team1\<close> and \<open>team2\<close> are the two-element
  arrays of the data model, \<open>score\<close> is the two-element score array and \<open>winner\<close> is
  the field that \<open>parseRawTournamentData\<close> derives (1 or 2).
\<close>

record match =
  m_id :: ident
  m_date :: jstring
  team1 :: "jstring \<times> jstring"
  team2 :: "jstring \<times> jstring"
  score :: "int \<times> int"
  winner :: int

text \<open>The spread \<open>[...match.team1, ...match.team2]\<close>.\<close>

definition participants :: "match \<Rightarrow> jstring list" where
  "participants m = [fst (team1 m), snd (team1 m), fst (team2 m), snd (team2 m)]"

section \<open>Italian points\<close>

text \<open>\<open>getItalianPoints\<close> of the tournament page (no guard for equal scores).\<close>

definition getItalianPoints :: "int \<Rightarrow> int \<Rightarrow> int" where
  "getItalianPoints myScore opponentScore =
     (let diff = \<bar>myScore - opponentScore\<bar>;
          isBalanced = (diff = 2)
      in if myScore > opponentScore
         then (if isBalanced then 2 else 3)
         else (if isBalanced then 1 else 0))"

text \<open>\<open>getItalianPoints\<close> of the database module: equal scores give 0 first.\<close>

definition getItalianPoints_db :: "int \<Rightarrow> int \<Rightarrow> int" where
  "getItalianPoints_db myScore oppScore =
     (if myScore = oppScore then 0
      else (let diff = \<bar>myScore - oppScore\<bar>;
                isBalanced = (diff = 2)
            in if myScore > oppScore
               then (if isBalanced then 2 else 3)
               else (if isBalanced then 1 else 0)))"

section \<open>Elo engine\<close>

definition INITIAL_RATING :: real where
  "INITIAL_RATING = 1500"

definition K_FACTOR_DEFAULT :: int where
  "K_FACTOR_DEFAULT = 32"

definition K_FACTOR_CALIBRATION :: int where
  "K_FACTOR_CALIBRATION = 40"

definition CALIBRATION_GAMES :: nat where
  "CALIBRATION_GAMES = 15"

definition calculateExpectedScore :: "real \<Rightarrow> real \<Rightarrow> real" where
  "calculateExpectedScore playerRating opponentRating =
     1 / (1 + 10 powr ((opponentRating - playerRating) / 400))"

definition getKFactor :: "nat \<Rightarrow> int" where
  "getKFactor games_played =
     (if games_played < CALIBRATION_GAMES then K_FACTOR_CALIBRATION else K_FACTOR_DEFAULT)"

text \<open>\<open>Math.round\<close>: the nearest integer, a half rounded towards plus infinity.\<close>

definition mathRound :: "real \<Rightarrow> int" where
  "mathRound x = \<lfloor>x + 1 / 2\<rfloor>"

definition calculateRatingChange :: "real \<Rightarrow> real \<Rightarrow> bool \<Rightarrow> nat \<Rightarrow> int" where
  "calculateRatingChange playerRating opponentTeamRating isWinner games_played =
     (let expectedScore = calculateExpectedScore playerRating opponentTeamRating;
          actualScore = (if isWinner then 1 else 0);
          kFactor = getKFactor games_played
      in mathRound (real_of_int kFactor * (actualScore - expectedScore)))"

definition calculateTeamRating :: "real \<Rightarrow> real \<Rightarrow> real" where
  "calculateTeamRating rating1 rating2 = (rating1 + rating2) / 2"

text \<open>
  A JavaScript \<open>Map\<close> keeps its keys in insertion order; \<open>set\<close> on a present key
  replaces the value in place and on an absent key appends. That is \<open>AList.update\<close>
  on an association list, with \<open>map_of\<close> for \<open>get\<close>.

  \<open>x || d\<close> on a number read from a map yields \<open>d\<close> when the key is absent
  (\<open>undefined\<close>) and also when the stored number is 0, which is falsy.
\<close>

definition orDefault :: "'a::zero option \<Rightarrow> 'a \<Rightarrow> 'a" where
  "orDefault x d = (case x of None \<Rightarrow> d | Some v \<Rightarrow> if v = 0 then d else v)"

text \<open>
  The result of \<open>processMatch\<close> is a plain object \<open>ratingChanges\<close> keyed by player id.
  \<open>ratingChanges[id] = change\<close> on an own key replaces the value and keeps the key's
  place, and on a new key appends it. For the id \<open>__proto__\<close> the assignment reaches the
  setter of \<open>Object.prototype\<close>, which ignores a number: no own property is created,
  and \<open>Object.entries\<close> does not list the id. The entries are listed in the order of
  their first assignment. (For ids that look like array indices the order is another one;
  the loop over the entries changes only the entries of the player at hand, so its result
  does not depend on the order.)
\<close>

definition protoKey :: jstring where
  "protoKey = [95, 95, 112, 114, 111, 116, 111, 95, 95]"

definition setProperty :: "jstring \<Rightarrow> int \<Rightarrow> (jstring \<times> int) list \<Rightarrow> (jstring \<times> int) list" where
  "setProperty k v obj = (if k = protoKey then obj else AList.update k v obj)"

definition processMatch ::
  "match \<Rightarrow> (jstring \<times> real) list \<Rightarrow> (jstring \<times> nat) list \<Rightarrow> (jstring \<times> int) list" where
  "processMatch m playerRatings playerGames =
     (let team1Player1Rating = orDefault (map_of playerRatings (fst (team1 m))) INITIAL_RATING;
          team1Player2Rating = orDefault (map_of playerRatings (snd (team1 m))) INITIAL_RATING;
          team2Player1Rating = orDefault (map_of playerRatings (fst (team2 m))) INITIAL_RATING;
          team2Player2Rating = orDefault (map_of playerRatings (snd (team2 m))) INITIAL_RATING;
          team1AvgRating = calculateTeamRating team1Player1Rating team1Player2Rating;
          team2AvgRating = calculateTeamRating team2Player1Rating team2Player2Rating;
          team1Won = (winner m = 1);
          c1 = calculateRatingChange team1Player1Rating team2AvgRating team1Won
                 (orDefault (map_of playerGames (fst (team1 m))) 0);
          c2 = calculateRatingChange team1Player2Rating team2AvgRating team1Won
                 (orDefault (map_of playerGames (snd (team1 m))) 0);
          c3 = calculateRatingChange team2Player1Rating team1AvgRating (\<not> team1Won)
                 (orDefault (map_of playerGames (fst (team2 m))) 0);
          c4 = calculateRatingChange team2Player2Rating team1AvgRating (\<not> team1Won)
                 (orDefault (map_of playerGames (snd (team2 m))) 0)
      in setProperty (snd (team2 m)) c4
           (setProperty (fst (team2 m)) c3
             (setProperty (snd (team1 m)) c2
               (setProperty (fst (team1 m)) c1 []))))"

record historyEntry =
  h_date :: jstring
  rating :: real
  matchId :: "ident option"
  change :: int

text \<open>The three maps that \<open>processAllMatches\<close> maintains.\<close>

record eloState =
  playerRatings :: "(jstring \<times> real) list"
  playerGames :: "(jstring \<times> nat) list"
  playerHistory :: "(jstring \<times> historyEntry list) list"

definition emptyState :: eloState where
  "emptyState = \<lparr>playerRatings = [], playerGames = [], playerHistory = []\<rparr>"

text \<open>The first pass: every player not yet in \<open>playerRatings\<close> gets the initial entries.\<close>

definition initPlayer :: "match \<Rightarrow> eloState \<Rightarrow> jstring \<Rightarrow> eloState" where
  "initPlayer m s playerId =
     (if map_of (playerRatings s) playerId = None
      then \<lparr>playerRatings = AList.update playerId INITIAL_RATING (playerRatings s),
            playerGames = AList.update playerId 0 (playerGames s),
            playerHistory = AList.update playerId
              [\<lparr>h_date = m_date m, rating = INITIAL_RATING, matchId = None, change = 0\<rparr>]
              (playerHistory s)\<rparr>
      else s)"

definition initMatch :: "eloState \<Rightarrow> match \<Rightarrow> eloState" where
  "initMatch s m = foldl (initPlayer m) s (participants m)"

definition initPlayers :: "match list \<Rightarrow> eloState" where
  "initPlayers matches = foldl initMatch emptyState matches"

text \<open>
  The body of the loop over \<open>Object.entries(ratingChanges)\<close>. When the player has no
  rating the sum is \<open>NaN\<close>, and when the player has no history \<open>history.push\<close> throws;
  the three maps are filled together, so both are the result \<open>None\<close>.
\<close>

definition applyChange :: "match \<Rightarrow> eloState \<Rightarrow> jstring \<times> int \<Rightarrow> eloState option" where
  "applyChange m s e =
     (case (map_of (playerRatings s) (fst e), map_of (playerHistory s) (fst e)) of
        (Some r, Some history) \<Rightarrow>
          (let newRating = r + real_of_int (snd e)
           in Some \<lparr>playerRatings = AList.update (fst e) newRating (playerRatings s),
                    playerGames = AList.update (fst e)
                      (orDefault (map_of (playerGames s) (fst e)) 0 + 1) (playerGames s),
                    playerHistory = AList.update (fst e)
                      (history @ [\<lparr>h_date = m_date m, rating = newRating,
                                   matchId = Some (m_id m), change = snd e\<rparr>])
                      (playerHistory s)\<rparr>)
      | _ \<Rightarrow> None)"

fun applyChanges :: "match \<Rightarrow> eloState \<Rightarrow> (jstring \<times> int) list \<Rightarrow> eloState option" where
  "applyChanges m s [] = Some s"
| "applyChanges m s (e # es) =
     (case applyChange m s e of None \<Rightarrow> None | Some s' \<Rightarrow> applyChanges m s' es)"

text \<open>One iteration of the second pass: the new state and the annotated match.\<close>

definition stepMatch ::
  "eloState \<Rightarrow> match \<Rightarrow> (eloState \<times> (match \<times> (jstring \<times> int) list)) option" where
  "stepMatch s m =
     (let ratingChanges = processMatch m (playerRatings s) (playerGames s)
      in case applyChanges m s ratingChanges of
           None \<Rightarrow> None
         | Some s' \<Rightarrow> Some (s', (m, ratingChanges)))"

fun processLoop ::
  "eloState \<Rightarrow> (match \<times> (jstring \<times> int) list) list \<Rightarrow> match list
     \<Rightarrow> (eloState \<times> (match \<times> (jstring \<times> int) list) list) option" where
  "processLoop s processedMatches [] = Some (s, processedMatches)"
| "processLoop s processedMatches (m # ms) =
     (case stepMatch s m of
        None \<Rightarrow> None
      | Some (s', pm) \<Rightarrow> processLoop s' (processedMatches @ [pm]) ms)"

record player =
  p_id :: jstring
  p_name :: jstring
  currentRating :: real
  gamesPlayed :: nat
  isCalibrated :: bool
  ratingHistory :: "historyEntry list"
  lastChange :: int

text \<open>
  The record that the last loop builds for an entry of \<open>playerRatings\<close>. Without a
  history the read of \<open>history.length\<close> throws, and without a games count the record
  would hold \<open>undefined\<close>: the result \<open>None\<close>. The name of a player is the id.
\<close>

definition buildPlayer :: "eloState \<Rightarrow> jstring \<times> real \<Rightarrow> player option" where
  "buildPlayer s e =
     (case (map_of (playerGames s) (fst e), map_of (playerHistory s) (fst e)) of
        (Some g, Some history) \<Rightarrow>
          Some \<lparr>p_id = fst e, p_name = fst e, currentRating = snd e, gamesPlayed = g,
                isCalibrated = (g \<ge> CALIBRATION_GAMES), ratingHistory = history,
                lastChange = (if length history > 1 then change (last history) else 0)\<rparr>
      | _ \<Rightarrow> None)"

fun buildPlayers :: "eloState \<Rightarrow> (jstring \<times> real) list \<Rightarrow> player list option" where
  "buildPlayers s [] = Some []"
| "buildPlayers s (e # es) =
     (case buildPlayer s e of
        None \<Rightarrow> None
      | Some p \<Rightarrow> (case buildPlayers s es of None \<Rightarrow> None | Some ps \<Rightarrow> Some (p # ps)))"

text \<open>
  \<open>Array.prototype.sort\<close> with a comparator is a stable sort: an element is placed
  before the first element that the comparator does not order before it.
\<close>

fun insertBy :: "('a \<Rightarrow> 'a \<Rightarrow> 'b::{zero,ord}) \<Rightarrow> 'a \<Rightarrow> 'a list \<Rightarrow> 'a list" where
  "insertBy cmp x [] = [x]"
| "insertBy cmp x (y # ys) = (if cmp x y \<le> 0 then x # y # ys else y # insertBy cmp x ys)"

definition sortBy :: "('a \<Rightarrow> 'a \<Rightarrow> 'b::{zero,ord}) \<Rightarrow> 'a list \<Rightarrow> 'a list" where
  "sortBy cmp xs = foldr (insertBy cmp) xs []"

definition byRatingDesc :: "player \<Rightarrow> player \<Rightarrow> real" where
  "byRatingDesc a b = currentRating b - currentRating a"

record eloResult =
  players :: "player list"
  matches :: "(match \<times> (jstring \<times> int) list) list"

definition processAllMatches :: "match list \<Rightarrow> eloResult option" where
  "processAllMatches ms =
     (case processLoop (initPlayers ms) [] ms of
        None \<Rightarrow> None
      | Some (s, processedMatches) \<Rightarrow>
          (case buildPlayers s (playerRatings s) of
             None \<Rightarrow> None
           | Some ps \<Rightarrow> Some \<lparr>players = sortBy byRatingDesc ps, matches = processedMatches\<rparr>))"

subsection \<open>Notions used to state the properties of the Elo engine\<close>

text \<open>
  The state of the three maps when the second pass reaches the match at index \<open>k\<close>:
  the first pass has run over the whole input, the second over the first \<open>k\<close> matches.
\<close>

definition stateBefore :: "match list \<Rightarrow> nat \<Rightarrow> eloState option" where
  "stateBefore ms k = map_option fst (processLoop (initPlayers ms) [] (take k ms))"

text \<open>
  The two reads of \<open>processMatch\<close>: \<open>playerRatings.get(id) || INITIAL_RATING\<close> and
  \<open>playerGames.get(id) || 0\<close>.
\<close>

definition ratingUsed :: "(jstring \<times> real) list \<Rightarrow> jstring \<Rightarrow> real" where
  "ratingUsed rs p = orDefault (map_of rs p) INITIAL_RATING"

definition gamesUsed :: "(jstring \<times> nat) list \<Rightarrow> jstring \<Rightarrow> nat" where
  "gamesUsed gs p = orDefault (map_of gs p) 0"

text \<open>
  The change \<open>processMatch\<close> computes for player \<open>p\<close> against the pair \<open>opponents\<close>,
  read from the maps of state \<open>s\<close>.
\<close>

definition playerDelta :: "eloState \<Rightarrow> jstring \<Rightarrow> jstring \<times> jstring \<Rightarrow> bool \<Rightarrow> int" where
  "playerDelta s p opponents isWinner =
     calculateRatingChange (ratingUsed (playerRatings s) p)
       (calculateTeamRating (ratingUsed (playerRatings s) (fst opponents))
          (ratingUsed (playerRatings s) (snd opponents)))
       isWinner (gamesUsed (playerGames s) p)"

text \<open>The end-to-end scenario: team \<open>[A, B]\<close> beats team \<open>[C, D]\<close> 21-15.\<close>

definition scenarioMatch :: match where
  "scenarioMatch = \<lparr>m_id = IdNum 1, m_date = [], team1 = ([65], [66]), team2 = ([67], [68]),
     score = (21, 15), winner = 1\<rparr>"

text \<open>
  The invariant of the second pass: a player has either all three entries or none, the
  history starts with the initial snapshot, has one entry per game played after it, and
  the rating is the initial rating plus the recorded changes.
\<close>

definition playerOk :: "eloState \<Rightarrow> jstring \<Rightarrow> bool" where
  "playerOk s p =
     (case (map_of (playerRatings s) p, map_of (playerGames s) p, map_of (playerHistory s) p) of
        (Some r, Some g, Some h) \<Rightarrow>
          length h = g + 1 \<and> rating (hd h) = INITIAL_RATING \<and> matchId (hd h) = None
          \<and> change (hd h) = 0 \<and> r = INITIAL_RATING + real_of_int (sum_list (map change h))
      | (None, None, None) \<Rightarrow> True
      | _ \<Rightarrow> False)"

definition eloInv :: "eloState \<Rightarrow> bool" where
  "eloInv s = ((\<forall>p. playerOk s p) \<and> distinct (map fst (playerRatings s)))"

text \<open>The players that have an entry in \<open>playerRatings\<close>.\<close>

definition known :: "eloState \<Rightarrow> jstring set" where
  "known s = dom (map_of (playerRatings s))"

text \<open>The snapshot that the loop appends for player \<open>p\<close> with change \<open>d\<close>.\<close>

definition newEntry :: "match \<Rightarrow> eloState \<Rightarrow> jstring \<Rightarrow> int \<Rightarrow> historyEntry" where
  "newEntry m s p d =
     \<lparr>h_date = m_date m, rating = the (map_of (playerRatings s) p) + real_of_int d,
      matchId = Some (m_id m), change = d\<rparr>"

text \<open>
  What a player's history says before a match: the change recorded for \<open>p\<close> with an
  annotated match (0 when \<open>p\<close> did not play it), the rating that results from the
  changes recorded with a list of annotated matches, and the number of matches of a list
  in which \<open>p\<close> took part.
\<close>

definition changeOf :: "(jstring \<times> int) list \<Rightarrow> jstring \<Rightarrow> int" where
  "changeOf ratingChanges p = (case map_of ratingChanges p of None \<Rightarrow> 0 | Some d \<Rightarrow> d)"

definition ratingAfter :: "(match \<times> (jstring \<times> int) list) list \<Rightarrow> jstring \<Rightarrow> real" where
  "ratingAfter processed p =
     INITIAL_RATING + real_of_int (sum_list (map (\<lambda>pm. changeOf (snd pm) p) processed))"

definition gamesIn :: "match list \<Rightarrow> jstring \<Rightarrow> nat" where
  "gamesIn ms p = length (filter (\<lambda>m. p \<in> set (participants m)) ms)"

text \<open>
  Maps in which player \<open>A\<close> has lost all of the initial rating: the rating stored for
  \<open>A\<close> is 0, every player has played 30 games.
\<close>

definition zeroRatings :: "(jstring \<times> real) list" where
  "zeroRatings = [([65], 0), ([66], 1500), ([67], 1500), ([68], 1500)]"

definition zeroGames :: "(jstring \<times> nat) list" where
  "zeroGames = [([65], 30), ([66], 30), ([67], 30), ([68], 30)]"

text \<open>
  A state of the second pass with these maps. The iteration only appends to the
  histories, which are cut here to the initial snapshot.
\<close>

definition initialSnapshot :: historyEntry where
  "initialSnapshot = \<lparr>h_date = [], rating = INITIAL_RATING, matchId = None, change = 0\<rparr>"

definition zeroState :: eloState where
  "zeroState = \<lparr>playerRatings = zeroRatings, playerGames = zeroGames,
     playerHistory = [([65], [initialSnapshot]), ([66], [initialSnapshot]),
                      ([67], [initialSnapshot]), ([68], [initialSnapshot])]\<rparr>"

text \<open>A match whose first player has the id \<open>__proto__\<close>; the others are \<open>B\<close>, \<open>C\<close>, \<open>D\<close>.\<close>

definition protoMatch :: match where
  "protoMatch = \<lparr>m_id = IdNum 1, m_date = [], team1 = (protoKey, [66]), team2 = ([67], [68]),
     score = (21, 15), winner = 1\<rparr>"

text \<open>After the first pass every known player has the initial rating and no game.\<close>

definition initFresh :: "eloState \<Rightarrow> bool" where
  "initFresh s = (\<forall>p r. map_of (playerRatings s) p = Some r \<longrightarrow>
      r = INITIAL_RATING \<and> map_of (playerGames s) p = Some 0)"

section \<open>Gender heuristic\<close>

datatype gender = Male | Female

text \<open>
  The set \<open>FEMALE_NAMES\<close> of the tournament page, in the order of the source; \<open>has\<close> is
  membership. The last two entries are the full names that the set holds beside the
  first names.
\<close>

definition FEMALE_NAMES :: "jstring list" where
  "FEMALE_NAMES =
     [[1052, 1072, 1088, 1080, 1103],
      [1040, 1085, 1072, 1089, 1090, 1072, 1089, 1080, 1103],
      [1070, 1083, 1080, 1103],
      [1057, 1074, 1077, 1090, 1083, 1072, 1085, 1072],
      [1054, 1083, 1100, 1075, 1072],
      [1040, 1085, 1085, 1072],
      [1053, 1072, 1090, 1072, 1083, 1100, 1103],
      [1045, 1082, 1072, 1090, 1077, 1088, 1080, 1085, 1072],
      [1045, 1083, 1077, 1085, 1072],
      [1048, 1088, 1080, 1085, 1072],
      [1058, 1072, 1090, 1100, 1103, 1085, 1072],
      [1044, 1072, 1088, 1100, 1103],
      [1050, 1089, 1077, 1085, 1080, 1103],
      [1045, 1074, 1075, 1077, 1085, 1080, 1103],
      [1048, 1085, 1085, 1072],
      [1042, 1072, 1089, 1080, 1083, 1080, 1089, 1072],
      [1046, 1072, 1085, 1085, 1072],
      [1053, 1080, 1085, 1072],
      [1055, 1088, 1077, 1086, 1073, 1088, 1072, 1078, 1077, 1085, 1089, 1082, 1072, 1103, 32, 1045, 1082, 46],
      [1053, 1077, 1080, 1079, 1074, 1077, 1089, 1090, 1085, 1072, 1103, 32, 1050, 1089, 1077, 1085, 1080, 1103]]"

text \<open>The array \<open>maleExceptions\<close>: Nikita, Ilya, Kirill in Cyrillic.\<close>

definition maleExceptions :: "jstring list" where
  "maleExceptions =
     [[1053, 1080, 1082, 1080, 1090, 1072],
      [1048, 1083, 1100, 1103],
      [1050, 1080, 1088, 1080, 1083, 1083]]"

text \<open>
  \<open>String.prototype.split\<close> with a one-unit separator: the pieces between the
  occurrences of the separator, at least one piece.
\<close>

fun splitOn :: "nat \<Rightarrow> jstring \<Rightarrow> jstring list" where
  "splitOn sep [] = [[]]"
| "splitOn sep (c # cs) =
     (if c = sep then [] # splitOn sep cs
      else (case splitOn sep cs of [] \<Rightarrow> [[c]] | p # ps \<Rightarrow> (c # p) # ps))"

definition endsWith :: "jstring \<Rightarrow> jstring \<Rightarrow> bool" where
  "endsWith s suffix =
     (length suffix \<le> length s \<and> drop (length s - length suffix) s = suffix)"

text \<open>
  \<open>parts.length > 1 ? parts[1] : parts[0]\<close> on \<open>fullName.split(' ')\<close>; the space is the
  code unit 32.
\<close>

definition firstNameOf :: "jstring \<Rightarrow> jstring" where
  "firstNameOf fullName =
     (case splitOn 32 fullName of [] \<Rightarrow> [] | [p0] \<Rightarrow> p0 | p0 # p1 # ps \<Rightarrow> p1)"

text \<open>\<open>getGender\<close> of the tournament page. The suffixes are Cyrillic a, ya and soft sign + ya.\<close>

definition getGender :: "jstring \<Rightarrow> gender" where
  "getGender fullName =
     (if fullName \<in> set FEMALE_NAMES then Female
      else (let firstName = firstNameOf fullName
            in if firstName \<in> set FEMALE_NAMES then Female
               else if endsWith firstName [1072] \<or> endsWith firstName [1103]
                       \<or> endsWith firstName [1100, 1103]
                    then (if firstName \<notin> set maleExceptions then Female else Male)
                    else Male))"

text \<open>The import script has its own set of first names and its own \<open>getGender\<close>.\<close>

definition FEMALE_NAMES_db :: "jstring list" where
  "FEMALE_NAMES_db =
     [[1052, 1072, 1088, 1080, 1103],
      [1040, 1085, 1085, 1072],
      [1054, 1083, 1100, 1075, 1072],
      [1057, 1074, 1077, 1090, 1083, 1072, 1085, 1072],
      [1070, 1083, 1080, 1103],
      [1053, 1072, 1090, 1072, 1083, 1100, 1103],
      [1045, 1082, 1072, 1090, 1077, 1088, 1080, 1085, 1072],
      [1040, 1085, 1072, 1089, 1090, 1072, 1089, 1080, 1103],
      [1045, 1083, 1077, 1085, 1072],
      [1058, 1072, 1090, 1100, 1103, 1085, 1072],
      [1048, 1088, 1080, 1085, 1072],
      [1044, 1072, 1088, 1100, 1103],
      [1050, 1089, 1077, 1085, 1080, 1103],
      [1045, 1074, 1075, 1077, 1085, 1080, 1103],
      [1042, 1072, 1089, 1080, 1083, 1080, 1089, 1072],
      [1048, 1085, 1085, 1072],
      [1046, 1072, 1085, 1085, 1072],
      [1053, 1080, 1085, 1072]]"

definition MALE_EXCEPTIONS :: "jstring list" where
  "MALE_EXCEPTIONS =
     [[1053, 1080, 1082, 1080, 1090, 1072],
      [1048, 1083, 1100, 1103],
      [1050, 1080, 1088, 1080, 1083, 1083]]"

text \<open>\<open>s.slice(-n)\<close>: the last \<open>n\<close> code units, the whole string when it is shorter.\<close>

definition sliceLast :: "nat \<Rightarrow> jstring \<Rightarrow> jstring" where
  "sliceLast n s = drop (length s - n) s"

text \<open>
  \<open>toLowerCase\<close> on Basic Latin and on the Cyrillic block. The source compares the
  result only with Cyrillic a, ya and soft sign + ya, and the capital letters of the
  Cyrillic block are the only other code units that lower-case to these, so the
  comparisons of the model are those of the source on every string.
\<close>

definition toLowerUnit :: "nat \<Rightarrow> nat" where
  "toLowerUnit c =
     (if 65 \<le> c \<and> c \<le> 90 then c + 32
      else if 1040 \<le> c \<and> c \<le> 1071 then c + 32
      else if 1024 \<le> c \<and> c \<le> 1039 then c + 80
      else c)"

definition toLowerCase :: "jstring \<Rightarrow> jstring" where
  "toLowerCase s = map toLowerUnit s"

definition getGender_db :: "jstring \<Rightarrow> gender" where
  "getGender_db fullName =
     (let firstName = firstNameOf fullName
      in if firstName \<in> set FEMALE_NAMES_db then Female
         else if firstName \<in> set MALE_EXCEPTIONS then Male
         else (let lastChar = toLowerCase (sliceLast 1 firstName);
                   lastTwoChars = toLowerCase (sliceLast 2 firstName)
               in if lastTwoChars = [1100, 1103] then Male
                  else if lastChar = [1072] \<or> lastChar = [1103] then Female
                  else Male))"

text \<open>
  Three full names: the abbreviated entry of \<open>FEMALE_NAMES\<close> (first name \<open>Ek.\<close>), a
  name whose first name Sofya ends in soft sign + ya, and a name with the first name
  Nikita.
\<close>

definition preobrazhenskayaEk :: jstring where
  "preobrazhenskayaEk = [1055, 1088, 1077, 1086, 1073, 1088, 1072, 1078, 1077, 1085, 1089, 1082, 1072, 1103, 32, 1045, 1082, 46]"

definition ivanovaSofya :: jstring where
  "ivanovaSofya = [1048, 1074, 1072, 1085, 1086, 1074, 1072, 32, 1057, 1086, 1092, 1100, 1103]"

definition ivanovNikita :: jstring where
  "ivanovNikita = [1048, 1074, 1072, 1085, 1086, 1074, 32, 1053, 1080, 1082, 1080, 1090, 1072]"

section \<open>Standings engine\<close>

record matchDetail =
  d_id :: ident
  myScore :: int
  oppScore :: int
  won :: bool
  diff :: int
  points :: int

text \<open>The accumulator object that \<open>calculateStandings\<close> keeps for a player.\<close>

record standingsRow =
  name :: jstring
  gender :: gender
  games :: nat
  wins :: nat
  losses :: nat
  italianPoints :: int
  ballsFor :: int
  ballsAgainst :: int
  matchDetails :: "matchDetail list"

text \<open>The row of the result: the accumulator spread, with \<open>ballsDiff\<close> added.\<close>

record standing = standingsRow +
  ballsDiff :: int

text \<open>The module variable \<open>currentGenderFilter\<close>: \<open>'all'\<close>, \<open>'male'\<close> or \<open>'female'\<close>.\<close>

datatype genderFilter = FilterAll | FilterGender gender

definition newRow :: "jstring \<Rightarrow> standingsRow" where
  "newRow playerName =
     \<lparr>name = playerName, gender = getGender playerName, games = 0, wins = 0, losses = 0,
      italianPoints = 0, ballsFor = 0, ballsAgainst = 0, matchDetails = []\<rparr>"

text \<open>The first inner loop: a player not yet in the map gets a fresh row.\<close>

definition ensurePlayer ::
  "(jstring \<times> standingsRow) list \<Rightarrow> jstring \<Rightarrow> (jstring \<times> standingsRow) list" where
  "ensurePlayer ps playerName =
     (if map_of ps playerName = None then AList.update playerName (newRow playerName) ps
      else ps)"

text \<open>
  The body of the iterations over \<open>match.team1\<close> and \<open>match.team2\<close>, which differ in the
  score that is the player's own and in who won. \<open>players.get\<close> on an absent name yields
  \<open>undefined\<close> and the update throws: the result \<open>None\<close>.
\<close>

definition creditPlayer ::
  "match \<Rightarrow> int \<Rightarrow> int \<Rightarrow> bool \<Rightarrow> (jstring \<times> standingsRow) list \<Rightarrow> jstring
     \<Rightarrow> (jstring \<times> standingsRow) list option" where
  "creditPlayer m my opp teamWon ps playerName =
     (case map_of ps playerName of
        None \<Rightarrow> None
      | Some p \<Rightarrow>
          (let pts = getItalianPoints my opp
           in Some (AList.update playerName
                (p\<lparr>games := games p + 1,
                   wins := (if teamWon then wins p + 1 else wins p),
                   losses := (if teamWon then losses p else losses p + 1),
                   italianPoints := italianPoints p + pts,
                   ballsFor := ballsFor p + my,
                   ballsAgainst := ballsAgainst p + opp,
                   matchDetails := matchDetails p @
                     [\<lparr>d_id = m_id m, myScore = my, oppScore = opp, won = teamWon,
                       diff = \<bar>my - opp\<bar>, points = pts\<rparr>]\<rparr>)
                ps)))"

fun creditTeam ::
  "match \<Rightarrow> int \<Rightarrow> int \<Rightarrow> bool \<Rightarrow> (jstring \<times> standingsRow) list \<Rightarrow> jstring list
     \<Rightarrow> (jstring \<times> standingsRow) list option" where
  "creditTeam m my opp teamWon ps [] = Some ps"
| "creditTeam m my opp teamWon ps (n # ns) =
     (case creditPlayer m my opp teamWon ps n of
        None \<Rightarrow> None
      | Some ps' \<Rightarrow> creditTeam m my opp teamWon ps' ns)"

text \<open>The body of \<open>matches.forEach\<close>: a match with equal scores is skipped.\<close>

definition standingsMatch ::
  "(jstring \<times> standingsRow) list \<Rightarrow> match \<Rightarrow> (jstring \<times> standingsRow) list option" where
  "standingsMatch ps m =
     (if fst (score m) = snd (score m) then Some ps
      else (let team1Won = (fst (score m) > snd (score m));
                ps1 = foldl ensurePlayer ps (participants m)
            in case creditTeam m (fst (score m)) (snd (score m)) team1Won ps1
                      [fst (team1 m), snd (team1 m)] of
                 None \<Rightarrow> None
               | Some ps2 \<Rightarrow>
                   creditTeam m (snd (score m)) (fst (score m)) (\<not> team1Won) ps2
                     [fst (team2 m), snd (team2 m)]))"

fun standingsLoop ::
  "(jstring \<times> standingsRow) list \<Rightarrow> match list \<Rightarrow> (jstring \<times> standingsRow) list option" where
  "standingsLoop ps [] = Some ps"
| "standingsLoop ps (m # ms) =
     (case standingsMatch ps m of None \<Rightarrow> None | Some ps' \<Rightarrow> standingsLoop ps' ms)"

definition passesFilter :: "genderFilter \<Rightarrow> standingsRow \<Rightarrow> bool" where
  "passesFilter currentGenderFilter p =
     (currentGenderFilter = FilterAll \<or> FilterGender (gender p) = currentGenderFilter)"

definition withBallsDiff :: "standingsRow \<Rightarrow> standing" where
  "withBallsDiff p =
     \<lparr>name = name p, gender = gender p, games = games p, wins = wins p, losses = losses p,
      italianPoints = italianPoints p, ballsFor = ballsFor p, ballsAgainst = ballsAgainst p,
      matchDetails = matchDetails p, ballsDiff = ballsFor p - ballsAgainst p\<rparr>"

definition compareStandings :: "standing \<Rightarrow> standing \<Rightarrow> int" where
  "compareStandings a b =
     (if italianPoints b \<noteq> italianPoints a then italianPoints b - italianPoints a
      else ballsDiff b - ballsDiff a)"

definition calculateStandings :: "genderFilter \<Rightarrow> match list \<Rightarrow> standing list option" where
  "calculateStandings currentGenderFilter ms =
     (case standingsLoop [] ms of
        None \<Rightarrow> None
      | Some ps \<Rightarrow>
          Some (sortBy compareStandings
                  (map withBallsDiff (filter (passesFilter currentGenderFilter) (map snd ps)))))"

text \<open>
  The table of \<open>renderGroupSection\<close> numbers the rows of the standings:
  \<open>standings.map((p, i) => ...)\<close> prints \<open>i + 1\<close> in the first column.
\<close>

definition rankRows :: "'a list \<Rightarrow> (nat \<times> 'a) list" where
  "rankRows standings = map (\<lambda>(i, p). (i + 1, p)) (enumerate 0 standings)"

subsection \<open>The standings of the earlier tournament page\<close>

text \<open>
  \<open>calculateStandings\<close> of \<open>tournamentUI.js\<close> ranks by wins and points difference. Its
  rows have no gender, no Italian points and no match details, and it has no filter.
  \<open>winRate\<close> is \<open>Math.round((p.wins / p.games) * 100)\<close> in double arithmetic, where the
  quotient and the product are rounded before \<open>Math.round\<close> is: 23 wins in 40 games give
  57, while the exact value 57.5 rounds to 58. Doubles are not modelled; the function
  from wins and games to this number is the parameter \<open>roundedPercent\<close> of the model.
\<close>

record legacyRow =
  l_name :: jstring
  l_games :: nat
  l_wins :: nat
  l_losses :: nat
  pointsFor :: int
  pointsAgainst :: int

record legacyStanding = legacyRow +
  pointsDiff :: int
  winRate :: int

definition newRow_legacy :: "jstring \<Rightarrow> legacyRow" where
  "newRow_legacy playerName =
     \<lparr>l_name = playerName, l_games = 0, l_wins = 0, l_losses = 0, pointsFor = 0,
      pointsAgainst = 0\<rparr>"

definition ensurePlayer_legacy ::
  "(jstring \<times> legacyRow) list \<Rightarrow> jstring \<Rightarrow> (jstring \<times> legacyRow) list" where
  "ensurePlayer_legacy ps playerName =
     (if map_of ps playerName = None
      then AList.update playerName (newRow_legacy playerName) ps
      else ps)"

definition creditPlayer_legacy ::
  "int \<Rightarrow> int \<Rightarrow> bool \<Rightarrow> (jstring \<times> legacyRow) list \<Rightarrow> jstring
     \<Rightarrow> (jstring \<times> legacyRow) list option" where
  "creditPlayer_legacy my opp teamWon ps playerName =
     (case map_of ps playerName of
        None \<Rightarrow> None
      | Some p \<Rightarrow>
          Some (AList.update playerName
            (p\<lparr>l_games := l_games p + 1,
               l_wins := (if teamWon then l_wins p + 1 else l_wins p),
               l_losses := (if teamWon then l_losses p else l_losses p + 1),
               pointsFor := pointsFor p + my,
               pointsAgainst := pointsAgainst p + opp\<rparr>)
            ps))"

fun creditTeam_legacy ::
  "int \<Rightarrow> int \<Rightarrow> bool \<Rightarrow> (jstring \<times> legacyRow) list \<Rightarrow> jstring list
     \<Rightarrow> (jstring \<times> legacyRow) list option" where
  "creditTeam_legacy my opp teamWon ps [] = Some ps"
| "creditTeam_legacy my opp teamWon ps (n # ns) =
     (case creditPlayer_legacy my opp teamWon ps n of
        None \<Rightarrow> None
      | Some ps' \<Rightarrow> creditTeam_legacy my opp teamWon ps' ns)"

definition standingsMatch_legacy ::
  "(jstring \<times> legacyRow) list \<Rightarrow> match \<Rightarrow> (jstring \<times> legacyRow) list option" where
  "standingsMatch_legacy ps m =
     (if fst (score m) = snd (score m) then Some ps
      else (let team1Won = (fst (score m) > snd (score m));
                ps1 = foldl ensurePlayer_legacy ps (participants m)
            in case creditTeam_legacy (fst (score m)) (snd (score m)) team1Won ps1
                      [fst (team1 m), snd (team1 m)] of
                 None \<Rightarrow> None
               | Some ps2 \<Rightarrow>
                   creditTeam_legacy (snd (score m)) (fst (score m)) (\<not> team1Won) ps2
                     [fst (team2 m), snd (team2 m)]))"

fun standingsLoop_legacy ::
  "(jstring \<times> legacyRow) list \<Rightarrow> match list \<Rightarrow> (jstring \<times> legacyRow) list option" where
  "standingsLoop_legacy ps [] = Some ps"
| "standingsLoop_legacy ps (m # ms) =
     (case standingsMatch_legacy ps m of
        None \<Rightarrow> None
      | Some ps' \<Rightarrow> standingsLoop_legacy ps' ms)"

definition withPointsDiff :: "(nat \<Rightarrow> nat \<Rightarrow> int) \<Rightarrow> legacyRow \<Rightarrow> legacyStanding" where
  "withPointsDiff roundedPercent p =
     \<lparr>l_name = l_name p, l_games = l_games p, l_wins = l_wins p, l_losses = l_losses p,
      pointsFor = pointsFor p, pointsAgainst = pointsAgainst p,
      pointsDiff = pointsFor p - pointsAgainst p,
      winRate = (if l_games p > 0 then roundedPercent (l_wins p) (l_games p) else 0)\<rparr>"

definition compareStandings_legacy :: "legacyStanding \<Rightarrow> legacyStanding \<Rightarrow> int" where
  "compareStandings_legacy a b =
     (if l_wins b \<noteq> l_wins a then int (l_wins b) - int (l_wins a)
      else pointsDiff b - pointsDiff a)"

definition calculateStandings_legacy ::
  "(nat \<Rightarrow> nat \<Rightarrow> int) \<Rightarrow> match list \<Rightarrow> legacyStanding list option" where
  "calculateStandings_legacy roundedPercent ms =
     (case standingsLoop_legacy [] ms of
        None \<Rightarrow> None
      | Some ps \<Rightarrow>
          Some (sortBy compareStandings_legacy
                  (map (withPointsDiff roundedPercent) (map snd ps))))"

text \<open>The percentage of exact arithmetic, one instance of the parameter.\<close>

definition exactPercent :: "nat \<Rightarrow> nat \<Rightarrow> int" where
  "exactPercent w g = mathRound (real w / real g * 100)"

text \<open>Matches of one group: two played matches, a draw, and a match of four other players.\<close>

definition groupMatch1 :: match where
  "groupMatch1 = \<lparr>m_id = IdNum 1, m_date = [], team1 = ([65], [66]), team2 = ([67], [68]),
     score = (21, 15), winner = 1\<rparr>"

definition groupMatch2 :: match where
  "groupMatch2 = \<lparr>m_id = IdNum 2, m_date = [], team1 = ([65], [67]), team2 = ([66], [68]),
     score = (13, 15), winner = 2\<rparr>"

definition drawMatch :: match where
  "drawMatch = \<lparr>m_id = IdNum 3, m_date = [], team1 = ([65], [69]), team2 = ([66], [70]),
     score = (15, 15), winner = 2\<rparr>"

definition groupMatch4 :: match where
  "groupMatch4 = \<lparr>m_id = IdNum 4, m_date = [], team1 = ([69], [70]), team2 = ([71], [72]),
     score = (21, 10), winner = 1\<rparr>"

subsection \<open>Notions used to state the properties of the standings engine\<close>

text \<open>
  The numeric accumulators of a row: games, wins, losses, Italian points, points for and
  points against; their field-wise sum; and the merge of the accumulators that two
  calls hold for one player, where a call without a row for the player contributes
  nothing.
\<close>

type_synonym totals = "nat \<times> nat \<times> nat \<times> int \<times> int \<times> int"

definition totalsOf :: "'a standingsRow_scheme \<Rightarrow> totals" where
  "totalsOf p = (games p, wins p, losses p, italianPoints p, ballsFor p, ballsAgainst p)"

fun addTotals :: "totals \<Rightarrow> totals \<Rightarrow> totals" where
  "addTotals (g, w, l, ip, bf, ba) (g', w', l', ip', bf', ba') =
     (g + g', w + w', l + l', ip + ip', bf + bf', ba + ba')"

definition zeroTotals :: totals where
  "zeroTotals = (0, 0, 0, 0, 0, 0)"

fun mergeAcc :: "totals option \<Rightarrow> totals option \<Rightarrow> totals option" where
  "mergeAcc None y = y"
| "mergeAcc (Some x) None = Some x"
| "mergeAcc (Some x) (Some y) = Some (addTotals x y)"

text \<open>The accumulators of player \<open>p\<close> in a standings list: those of the row named \<open>p\<close>.\<close>

definition accumulator :: "standing list \<Rightarrow> jstring \<Rightarrow> totals option" where
  "accumulator standings p = map_option totalsOf (find (\<lambda>r. name r = p) standings)"

text \<open>
  The order in which names are first encountered in a list of names, and the position of
  a name in a list (the length of the list for a name that is not in it).
\<close>

definition addKey :: "'a list \<Rightarrow> 'a \<Rightarrow> 'a list" where
  "addKey ks k = (if k \<in> set ks then ks else ks @ [k])"

definition encounterOrder :: "match list \<Rightarrow> jstring list" where
  "encounterOrder ms = foldl addKey [] (concat (map participants ms))"

fun indexOf :: "'a list \<Rightarrow> 'a \<Rightarrow> nat" where
  "indexOf [] x = 0"
| "indexOf (y # ys) x = (if x = y then 0 else Suc (indexOf ys x))"

text \<open>
  What one match adds to the accumulators of player \<open>p\<close>: one credit for each of the four
  places of the match that \<open>p\<close> occupies, nothing for a match with equal scores.
\<close>

definition credit :: "int \<Rightarrow> int \<Rightarrow> bool \<Rightarrow> totals" where
  "credit my opp teamWon =
     (1, if teamWon then 1 else 0, if teamWon then 0 else 1, getItalianPoints my opp, my, opp)"

definition creditIf :: "bool \<Rightarrow> totals \<Rightarrow> totals" where
  "creditIf b c = (if b then c else zeroTotals)"

definition contrib :: "jstring \<Rightarrow> match \<Rightarrow> totals" where
  "contrib p m =
     (if fst (score m) = snd (score m) then zeroTotals
      else addTotals
            (addTotals
              (addTotals
                (creditIf (fst (team1 m) = p)
                   (credit (fst (score m)) (snd (score m)) (fst (score m) > snd (score m))))
                (creditIf (snd (team1 m) = p)
                   (credit (fst (score m)) (snd (score m)) (fst (score m) > snd (score m)))))
              (creditIf (fst (team2 m) = p)
                 (credit (snd (score m)) (fst (score m)) (\<not> fst (score m) > snd (score m)))))
            (creditIf (snd (team2 m) = p)
               (credit (snd (score m)) (fst (score m)) (\<not> fst (score m) > snd (score m)))))"

definition tally :: "jstring \<Rightarrow> match list \<Rightarrow> totals" where
  "tally p ms = fold (\<lambda>m t. addTotals t (contrib p m)) ms zeroTotals"

definition totalsIn :: "(jstring \<times> standingsRow) list \<Rightarrow> jstring \<Rightarrow> totals" where
  "totalsIn ps p = (case map_of ps p of None \<Rightarrow> zeroTotals | Some r \<Rightarrow> totalsOf r)"

definition played :: "match \<Rightarrow> bool" where
  "played m = (fst (score m) \<noteq> snd (score m))"

text \<open>The invariant of the map of rows: distinct names, each row filed under its name.\<close>

definition rowsOk :: "(jstring \<times> standingsRow) list \<Rightarrow> bool" where
  "rowsOk ps = (distinct (map fst ps)
     \<and> (\<forall>e\<in>set ps. name (snd e) = fst e \<and> gender (snd e) = getGender (fst e)))"

section \<open>Properties of the Italian points table and the K-factor\<close>

text \<open>
  C1. For non-negative integer scores \<open>my \<noteq> opp\<close>, the Italian points function returns
  2 for a win by exactly 2, 3 for a win by any other margin, 1 for a loss by exactly 2
  and 0 for a loss by any other margin. Both copies of the function in the repository
  agree on such scores.
\<close>

theorem getItalianPoints_table:
  assumes "0 \<le> my" and "0 \<le> opp" and "my \<noteq> opp"
  shows "getItalianPoints my opp =
           (if my > opp then (if \<bar>my - opp\<bar> = 2 then 2 else 3)
            else (if \<bar>my - opp\<bar> = 2 then 1 else 0))
         \<and> getItalianPoints_db my opp = getItalianPoints my opp"
  using assms by (simp add: getItalianPoints_def getItalianPoints_db_def Let_def)

theorem getItalianPoints_table_witness:
  "getItalianPoints 15 13 = 2 \<and> getItalianPoints 15 10 = 3
   \<and> getItalianPoints 13 15 = 1 \<and> getItalianPoints 10 15 = 0
   \<and> getItalianPoints_db 15 13 = 2 \<and> getItalianPoints_db 10 15 = 0"
  using getItalianPoints_table [of 15 13] getItalianPoints_table [of 15 10]
    getItalianPoints_table [of 13 15] getItalianPoints_table [of 10 15]
  by simp

text \<open>
  C4. \<open>getKFactor\<close> returns 40 for a games-played count in [0,14] and 32 for a count of
  15 or more; in particular 40 at 14 and 32 at 15.
\<close>

theorem getKFactor_calibration:
  "(g \<le> 14 \<longrightarrow> getKFactor g = 40)
   \<and> (15 \<le> g \<longrightarrow> getKFactor g = 32)
   \<and> getKFactor 14 = 40 \<and> getKFactor 15 = 32"
  by (simp add: getKFactor_def CALIBRATION_GAMES_def K_FACTOR_CALIBRATION_def
      K_FACTOR_DEFAULT_def)

theorem getKFactor_calibration_witness:
  "getKFactor 0 = 40 \<and> getKFactor 14 = 40 \<and> getKFactor 15 = 32 \<and> getKFactor 100 = 32"
  using getKFactor_calibration [of 0] getKFactor_calibration [of 100]
  by simp

section \<open>Properties of the Elo engine\<close>

subsection \<open>The invariant of the maps\<close>

text \<open>
  The first pass establishes the invariant, and every application of a change keeps it;
  so no lookup of the second pass fails.
\<close>

lemma eloInv_empty: "eloInv emptyState"
  by (simp add: eloInv_def playerOk_def emptyState_def)

lemma eloInv_initPlayer: "eloInv s \<Longrightarrow> eloInv (initPlayer m s p)"
  unfolding eloInv_def
proof (intro conjI allI)
  fix q assume a: "(\<forall>p. playerOk s p) \<and> distinct (map fst (playerRatings s))"
  then have "playerOk s q" "playerOk s p" by auto
  then show "playerOk (initPlayer m s p) q"
    by (auto simp: playerOk_def initPlayer_def update_conv' split: option.splits)
next
  assume "(\<forall>p. playerOk s p) \<and> distinct (map fst (playerRatings s))"
  then show "distinct (map fst (playerRatings (initPlayer m s p)))"
    by (simp add: initPlayer_def distinct_update)
qed

lemma eloInv_foldl_initPlayer: "eloInv s \<Longrightarrow> eloInv (foldl (initPlayer m) s ps)"
  by (induction ps arbitrary: s) (simp_all add: eloInv_initPlayer)

lemma eloInv_foldl_initMatch: "eloInv s \<Longrightarrow> eloInv (foldl initMatch s ms)"
  by (induction ms arbitrary: s) (simp_all add: initMatch_def eloInv_foldl_initPlayer)

lemma eloInv_initPlayers: "eloInv (initPlayers ms)"
  by (simp add: initPlayers_def eloInv_foldl_initMatch eloInv_empty)

lemma known_initPlayer: "known (initPlayer m s p) = insert p (known s)"
  by (auto simp: known_def initPlayer_def update_conv')

lemma known_foldl_initPlayer: "known (foldl (initPlayer m) s ps) = known s \<union> set ps"
  by (induction ps arbitrary: s) (auto simp: known_initPlayer)

lemma known_foldl_initMatch:
  "known (foldl initMatch s ms) = known s \<union> (\<Union>m\<in>set ms. set (participants m))"
  by (induction ms arbitrary: s) (auto simp: initMatch_def known_foldl_initPlayer)

lemma known_empty: "known emptyState = {}"
  by (simp add: known_def emptyState_def)

lemma known_initPlayers: "known (initPlayers ms) = (\<Union>m\<in>set ms. set (participants m))"
  by (simp add: initPlayers_def known_foldl_initMatch known_empty)

lemma playerOk_known:
  "playerOk s p \<Longrightarrow> p \<in> known s \<Longrightarrow>
     \<exists>r g h. map_of (playerRatings s) p = Some r \<and> map_of (playerGames s) p = Some g
       \<and> map_of (playerHistory s) p = Some h"
  by (auto simp: playerOk_def known_def split: option.splits)

lemma applyChange_Some:
  assumes "eloInv s" "fst e \<in> known s"
  shows "\<exists>s'. applyChange m s e = Some s' \<and> eloInv s' \<and> known s' = known s
     \<and> (\<forall>q. q \<noteq> fst e \<longrightarrow> map_of (playerRatings s') q = map_of (playerRatings s) q
            \<and> map_of (playerGames s') q = map_of (playerGames s) q
            \<and> map_of (playerHistory s') q = map_of (playerHistory s) q)
     \<and> map_of (playerRatings s') (fst e)
          = map_option (\<lambda>r. r + real_of_int (snd e)) (map_of (playerRatings s) (fst e))
     \<and> map_of (playerGames s') (fst e) = map_option Suc (map_of (playerGames s) (fst e))
     \<and> map_of (playerHistory s') (fst e)
          = map_option (\<lambda>h. h @ [\<lparr>h_date = m_date m,
                rating = the (map_of (playerRatings s) (fst e)) + real_of_int (snd e),
                matchId = Some (m_id m), change = snd e\<rparr>]) (map_of (playerHistory s) (fst e))"
proof -
  from assms have ok: "\<forall>p. playerOk s p" and d: "distinct (map fst (playerRatings s))"
    by (auto simp: eloInv_def)
  from playerOk_known[OF ok[rule_format] assms(2)] obtain r g h where
    rgh: "map_of (playerRatings s) (fst e) = Some r" "map_of (playerGames s) (fst e) = Some g"
      "map_of (playerHistory s) (fst e) = Some h" by blast
  let ?s' = "\<lparr>playerRatings = AList.update (fst e) (r + real_of_int (snd e)) (playerRatings s),
              playerGames = AList.update (fst e) (orDefault (Some g) 0 + 1) (playerGames s),
              playerHistory = AList.update (fst e)
                (h @ [\<lparr>h_date = m_date m, rating = r + real_of_int (snd e),
                       matchId = Some (m_id m), change = snd e\<rparr>]) (playerHistory s)\<rparr>"
  have eq: "applyChange m s e = Some ?s'"
    by (simp add: applyChange_def rgh Let_def)
  have og: "orDefault (Some g) 0 = g" by (simp add: orDefault_def)
  have okp: "playerOk s (fst e)" using ok by blast
  then have hne: "length h = g + 1" by (simp add: playerOk_def rgh)
  then have hd: "hd (h @ [x]) = hd h" for x by (cases h) auto
  have "playerOk ?s' q" for q
  proof (cases "q = fst e")
    case True
    with okp show ?thesis
      by (simp add: playerOk_def rgh update_conv' og hd)
  next
    case False
    with ok[rule_format, of q] show ?thesis
      by (simp add: playerOk_def update_conv')
  qed
  then have allok: "\<forall>q. playerOk ?s' q" by blast
  have dist: "distinct (map fst (playerRatings ?s'))"
    using d by (simp add: distinct_update)
  have inv: "eloInv ?s'"
    unfolding eloInv_def using allok dist by blast
  have kn: "known ?s' = known s"
    using rgh by (auto simp: known_def update_conv')
  have rest: "(\<forall>q. q \<noteq> fst e \<longrightarrow> map_of (playerRatings ?s') q = map_of (playerRatings s) q
            \<and> map_of (playerGames ?s') q = map_of (playerGames s) q
            \<and> map_of (playerHistory ?s') q = map_of (playerHistory s) q)
     \<and> map_of (playerRatings ?s') (fst e)
          = map_option (\<lambda>r. r + real_of_int (snd e)) (map_of (playerRatings s) (fst e))
     \<and> map_of (playerGames ?s') (fst e) = map_option Suc (map_of (playerGames s) (fst e))
     \<and> map_of (playerHistory ?s') (fst e)
          = map_option (\<lambda>h. h @ [\<lparr>h_date = m_date m,
                rating = the (map_of (playerRatings s) (fst e)) + real_of_int (snd e),
                matchId = Some (m_id m), change = snd e\<rparr>]) (map_of (playerHistory s) (fst e))"
    by (simp add: update_conv' rgh og)
  show ?thesis
    using eq inv kn rest by blast
qed

text \<open>
  The loop over the entries of \<open>ratingChanges\<close> reads the maps as earlier iterations
  left them. Since the entries have distinct keys, its result is the simultaneous
  update: each listed player gets the own change, everybody else is left alone.
\<close>

lemma applyChanges_Some:
  assumes "eloInv s" "fst ` set es \<subseteq> known s" "distinct (map fst es)"
  shows "\<exists>s'. applyChanges m s es = Some s' \<and> eloInv s' \<and> known s' = known s
     \<and> (\<forall>q. map_of (playerRatings s') q =
              (case map_of es q of None \<Rightarrow> map_of (playerRatings s) q
               | Some d \<Rightarrow> map_option (\<lambda>r. r + real_of_int d) (map_of (playerRatings s) q)))
     \<and> (\<forall>q. map_of (playerGames s') q =
              (case map_of es q of None \<Rightarrow> map_of (playerGames s) q
               | Some d \<Rightarrow> map_option Suc (map_of (playerGames s) q)))
     \<and> (\<forall>q. map_of (playerHistory s') q =
              (case map_of es q of None \<Rightarrow> map_of (playerHistory s) q
               | Some d \<Rightarrow> map_option (\<lambda>h. h @ [newEntry m s q d]) (map_of (playerHistory s) q)))"
  using assms
proof (induction es arbitrary: s)
  case Nil
  then show ?case by simp
next
  case (Cons e es)
  from Cons.prems have k: "fst e \<in> known s" by simp
  from applyChange_Some[OF Cons.prems(1) k, of m] obtain s1 where
    s1: "applyChange m s e = Some s1" "eloInv s1" "known s1 = known s"
      and other: "\<And>q. q \<noteq> fst e \<Longrightarrow> map_of (playerRatings s1) q = map_of (playerRatings s) q
            \<and> map_of (playerGames s1) q = map_of (playerGames s) q
            \<and> map_of (playerHistory s1) q = map_of (playerHistory s) q"
      and self: "map_of (playerRatings s1) (fst e)
          = map_option (\<lambda>r. r + real_of_int (snd e)) (map_of (playerRatings s) (fst e))"
        "map_of (playerGames s1) (fst e) = map_option Suc (map_of (playerGames s) (fst e))"
        "map_of (playerHistory s1) (fst e)
          = map_option (\<lambda>h. h @ [newEntry m s (fst e) (snd e)]) (map_of (playerHistory s) (fst e))"
    unfolding newEntry_def by blast
  from Cons.prems have sub: "fst ` set es \<subseteq> known s1" and dist: "distinct (map fst es)"
    and notin: "fst e \<notin> fst ` set es"
    by (auto simp: s1(3))
  from Cons.IH[OF s1(2) sub dist] obtain s' where
    s': "applyChanges m s1 es = Some s'" "eloInv s'" "known s' = known s1"
    and r: "\<And>q. map_of (playerRatings s') q =
              (case map_of es q of None \<Rightarrow> map_of (playerRatings s1) q
               | Some d \<Rightarrow> map_option (\<lambda>r. r + real_of_int d) (map_of (playerRatings s1) q))"
    and g: "\<And>q. map_of (playerGames s') q =
              (case map_of es q of None \<Rightarrow> map_of (playerGames s1) q
               | Some d \<Rightarrow> map_option Suc (map_of (playerGames s1) q))"
    and h: "\<And>q. map_of (playerHistory s') q =
              (case map_of es q of None \<Rightarrow> map_of (playerHistory s1) q
               | Some d \<Rightarrow> map_option (\<lambda>h. h @ [newEntry m s1 q d]) (map_of (playerHistory s1) q))"
    by blast
  have none: "map_of es (fst e) = None"
    using notin by (simp add: map_of_eq_None_iff)
  have ne: "newEntry m s1 q d = newEntry m s q d" if "q \<noteq> fst e" for q d
    using other[OF that] by (simp add: newEntry_def)
  have R: "map_of (playerRatings s') q =
              (case map_of (e # es) q of None \<Rightarrow> map_of (playerRatings s) q
               | Some d \<Rightarrow> map_option (\<lambda>r. r + real_of_int d) (map_of (playerRatings s) q))" for q
  proof (cases "q = fst e")
    case True
    then show ?thesis using r[of q] none self by (cases e) simp
  next
    case False
    then show ?thesis using r[of q] other[OF False] by (cases e) (auto split: option.splits)
  qed
  have G: "map_of (playerGames s') q =
              (case map_of (e # es) q of None \<Rightarrow> map_of (playerGames s) q
               | Some d \<Rightarrow> map_option Suc (map_of (playerGames s) q))" for q
  proof (cases "q = fst e")
    case True
    then show ?thesis using g[of q] none self by (cases e) simp
  next
    case False
    then show ?thesis using g[of q] other[OF False] by (cases e) (auto split: option.splits)
  qed
  have H: "map_of (playerHistory s') q =
              (case map_of (e # es) q of None \<Rightarrow> map_of (playerHistory s) q
               | Some d \<Rightarrow> map_option (\<lambda>h. h @ [newEntry m s q d]) (map_of (playerHistory s) q))" for q
  proof (cases "q = fst e")
    case True
    then show ?thesis using h[of q] none self by (cases e) simp
  next
    case False
    then show ?thesis using h[of q] other[OF False] ne[OF False] by (cases e) (auto split: option.splits)
  qed
  have "applyChanges m s (e # es) = Some s'"
    by (simp add: s1(1) s'(1))
  moreover have "known s' = known s" by (simp add: s'(3) s1(3))
  ultimately show ?case using s'(2) R G H by blast
qed

lemma setProperty_keys:
  "fst ` set (setProperty k v obj) = (if k = protoKey then {} else {k}) \<union> fst ` set obj"
  by (simp add: setProperty_def dom_update)

lemma setProperty_distinct:
  "distinct (map fst obj) \<Longrightarrow> distinct (map fst (setProperty k v obj))"
  by (simp add: setProperty_def distinct_update)

lemma processMatch_keys:
  "fst ` set (processMatch m rs gs) = set (participants m) - {protoKey}"
  by (auto simp: processMatch_def Let_def setProperty_keys participants_def)

lemma processMatch_distinct: "distinct (map fst (processMatch m rs gs))"
  by (simp add: processMatch_def Let_def setProperty_distinct)

lemma stepMatch_Some:
  assumes "eloInv s" "set (participants m) \<subseteq> known s"
  shows "\<exists>s'. stepMatch s m = Some (s', (m, processMatch m (playerRatings s) (playerGames s)))
     \<and> eloInv s' \<and> known s' = known s
     \<and> (\<forall>q. map_of (playerRatings s') q =
              (case map_of (processMatch m (playerRatings s) (playerGames s)) q of
                 None \<Rightarrow> map_of (playerRatings s) q
               | Some d \<Rightarrow> map_option (\<lambda>r. r + real_of_int d) (map_of (playerRatings s) q)))
     \<and> (\<forall>q. map_of (playerGames s') q =
              (case map_of (processMatch m (playerRatings s) (playerGames s)) q of
                 None \<Rightarrow> map_of (playerGames s) q
               | Some d \<Rightarrow> map_option Suc (map_of (playerGames s) q)))
     \<and> (\<forall>q. map_of (playerHistory s') q =
              (case map_of (processMatch m (playerRatings s) (playerGames s)) q of
                 None \<Rightarrow> map_of (playerHistory s) q
               | Some d \<Rightarrow> map_option (\<lambda>h. h @ [newEntry m s q d]) (map_of (playerHistory s) q)))"
proof -
  let ?rc = "processMatch m (playerRatings s) (playerGames s)"
  have sub: "fst ` set ?rc \<subseteq> known s"
    using assms(2) by (auto simp: processMatch_keys)
  from applyChanges_Some[OF assms(1) sub processMatch_distinct, of m]
  obtain s' where s': "applyChanges m s ?rc = Some s'" and
    rest: "eloInv s' \<and> known s' = known s
     \<and> (\<forall>q. map_of (playerRatings s') q =
              (case map_of ?rc q of None \<Rightarrow> map_of (playerRatings s) q
               | Some d \<Rightarrow> map_option (\<lambda>r. r + real_of_int d) (map_of (playerRatings s) q)))
     \<and> (\<forall>q. map_of (playerGames s') q =
              (case map_of ?rc q of None \<Rightarrow> map_of (playerGames s) q
               | Some d \<Rightarrow> map_option Suc (map_of (playerGames s) q)))
     \<and> (\<forall>q. map_of (playerHistory s') q =
              (case map_of ?rc q of None \<Rightarrow> map_of (playerHistory s) q
               | Some d \<Rightarrow> map_option (\<lambda>h. h @ [newEntry m s q d]) (map_of (playerHistory s) q)))"
    by blast
  have "stepMatch s m = Some (s', (m, ?rc))"
    by (simp add: stepMatch_def Let_def s')
  with rest show ?thesis by blast
qed

subsection \<open>The second pass\<close>

lemma processLoop_append:
  "processLoop s acc (xs @ ys) =
     (case processLoop s acc xs of None \<Rightarrow> None | Some (s', acc') \<Rightarrow> processLoop s' acc' ys)"
  by (induction xs arbitrary: s acc) (auto split: option.splits)

lemma processLoop_Some:
  assumes "eloInv s" "\<forall>m\<in>set ms. set (participants m) \<subseteq> known s"
  shows "\<exists>s' rest. processLoop s acc ms = Some (s', acc @ rest) \<and> eloInv s' \<and> known s' = known s
           \<and> length rest = length ms"
  using assms
proof (induction ms arbitrary: s acc)
  case Nil
  then show ?case by simp
next
  case (Cons m ms)
  from Cons.prems have pm: "set (participants m) \<subseteq> known s" by simp
  from stepMatch_Some[OF Cons.prems(1) pm] obtain s1 pm1 where
    s1: "stepMatch s m = Some (s1, pm1)" "eloInv s1" "known s1 = known s"
    by blast
  from Cons.prems s1(3) have "\<forall>m\<in>set ms. set (participants m) \<subseteq> known s1" by simp
  from Cons.IH[OF s1(2) this, of "acc @ [pm1]"] obtain s' rest where
    "processLoop s1 (acc @ [pm1]) ms = Some (s', (acc @ [pm1]) @ rest)" "eloInv s'"
    "known s' = known s1" "length rest = length ms"
    by blast
  then have "processLoop s acc (m # ms) = Some (s', acc @ (pm1 # rest)) \<and> eloInv s'
     \<and> known s' = known s \<and> length (pm1 # rest) = length (m # ms)"
    using s1 by simp
  then show ?case by blast
qed

lemma participants_known_init:
  "m \<in> set ms \<Longrightarrow> set (participants m) \<subseteq> known (initPlayers ms)"
  by (auto simp: known_initPlayers)

lemma prefix_Some:
  "\<exists>s rest. processLoop (initPlayers ms) [] (take k ms) = Some (s, rest) \<and> eloInv s
      \<and> known s = known (initPlayers ms) \<and> length rest = length (take k ms)"
proof -
  have "\<forall>m\<in>set (take k ms). set (participants m) \<subseteq> known (initPlayers ms)"
    using participants_known_init in_set_takeD by fast
  from processLoop_Some[OF eloInv_initPlayers this, of "[]"] show ?thesis by simp
qed

lemma stateBefore_Some:
  "\<exists>s. stateBefore ms k = Some s \<and> eloInv s \<and> known s = known (initPlayers ms)"
  using prefix_Some[of ms k] by (auto simp: stateBefore_def)

lemma stateBefore_step:
  assumes "k < length ms" "stateBefore ms k = Some s"
  shows "\<exists>s'. stepMatch s (ms ! k) = Some (s', (ms ! k, processMatch (ms ! k) (playerRatings s) (playerGames s)))
           \<and> stateBefore ms (Suc k) = Some s'"
proof -
  from stateBefore_Some[of ms k] assms(2) have inv: "eloInv s" and kn: "known s = known (initPlayers ms)"
    by auto
  have "set (participants (ms ! k)) \<subseteq> known s"
    using participants_known_init[of "ms ! k" ms] assms(1) kn by simp
  from stepMatch_Some[OF inv this] obtain s' where
    st: "stepMatch s (ms ! k) = Some (s', (ms ! k, processMatch (ms ! k) (playerRatings s) (playerGames s)))"
    by blast
  from assms(2) obtain acc where pl: "processLoop (initPlayers ms) [] (take k ms) = Some (s, acc)"
    by (auto simp: stateBefore_def)
  have "take (Suc k) ms = take k ms @ [ms ! k]"
    using assms(1) by (simp add: take_Suc_conv_app_nth)
  then have "stateBefore ms (Suc k) = Some s'"
    by (simp add: stateBefore_def processLoop_append pl st)
  with st show ?thesis by blast
qed

lemma processLoop_nth:
  assumes "k < length ms" "stateBefore ms k = Some s"
    "processLoop (initPlayers ms) [] ms = Some (sf, acc)"
  shows "acc ! k = (ms ! k, processMatch (ms ! k) (playerRatings s) (playerGames s))"
proof -
  from prefix_Some[of ms k] assms(2) obtain acck where
    pl: "processLoop (initPlayers ms) [] (take k ms) = Some (s, acck)" and len: "length acck = k"
    using assms(1) by (auto simp: stateBefore_def)
  from stateBefore_Some[of ms k] assms(2) have inv: "eloInv s" and kn: "known s = known (initPlayers ms)"
    by auto
  from stateBefore_step[OF assms(1,2)] obtain s' where
    st: "stepMatch s (ms ! k) = Some (s', (ms ! k, processMatch (ms ! k) (playerRatings s) (playerGames s)))"
    and sb: "stateBefore ms (Suc k) = Some s'"
    by blast
  from stateBefore_Some[of ms "Suc k"] sb have inv': "eloInv s'" and kn': "known s' = known (initPlayers ms)"
    by auto
  have "\<forall>m\<in>set (drop (Suc k) ms). set (participants m) \<subseteq> known s'"
    using participants_known_init in_set_dropD kn' by fast
  from processLoop_Some[OF inv' this] obtain sf' rest where
    "processLoop s' (acck @ [(ms ! k, processMatch (ms ! k) (playerRatings s) (playerGames s))])
        (drop (Suc k) ms)
      = Some (sf', (acck @ [(ms ! k, processMatch (ms ! k) (playerRatings s) (playerGames s))]) @ rest)"
    by blast
  moreover have "ms = take k ms @ (ms ! k # drop (Suc k) ms)"
    using assms(1) by (simp add: id_take_nth_drop[symmetric])
  then have "processLoop (initPlayers ms) [] ms =
    processLoop s' (acck @ [(ms ! k, processMatch (ms ! k) (playerRatings s) (playerGames s))])
        (drop (Suc k) ms)"
    using processLoop_append[of "initPlayers ms" "[]" "take k ms" "ms ! k # drop (Suc k) ms"] pl st
    by simp
  ultimately have "acc = (acck @ [(ms ! k, processMatch (ms ! k) (playerRatings s) (playerGames s))]) @ rest"
    using assms(3) by simp
  then show ?thesis using len by (simp add: nth_append)
qed

subsection \<open>The result records\<close>

lemma set_insertBy: "set (insertBy cmp x xs) = insert x (set xs)"
  by (induction xs) auto

lemma set_sortBy: "set (sortBy cmp xs) = set xs"
  by (induction xs) (simp_all add: sortBy_def set_insertBy)

lemma buildPlayers_Some:
  assumes "eloInv s" "fst ` set es \<subseteq> known s"
  shows "\<exists>ps. buildPlayers s es = Some ps \<and> (\<forall>p\<in>set ps. \<exists>e\<in>set es. buildPlayer s e = Some p)"
  using assms(2)
proof (induction es)
  case Nil
  then show ?case by simp
next
  case (Cons e es)
  then have k: "fst e \<in> known s" and sub: "fst ` set es \<subseteq> known s" by auto
  from assms(1) have "playerOk s (fst e)" by (simp add: eloInv_def)
  from playerOk_known[OF this k] obtain r g h where
    "map_of (playerGames s) (fst e) = Some g" "map_of (playerHistory s) (fst e) = Some h"
    by blast
  then obtain p where p: "buildPlayer s e = Some p"
    by (simp add: buildPlayer_def)
  from Cons.IH[OF sub] obtain ps where
    ps: "buildPlayers s es = Some ps" "\<forall>p\<in>set ps. \<exists>e\<in>set es. buildPlayer s e = Some p"
    by blast
  have "buildPlayers s (e # es) = Some (p # ps)" by (simp add: p ps(1))
  moreover have "\<forall>q\<in>set (p # ps). \<exists>e'\<in>set (e # es). buildPlayer s e' = Some q"
    using p ps(2) by auto
  ultimately show ?case by blast
qed

lemma buildPlayer_ok:
  assumes "eloInv s" "e \<in> set (playerRatings s)" "buildPlayer s e = Some p"
  shows "length (ratingHistory p) = gamesPlayed p + 1
     \<and> rating (hd (ratingHistory p)) = 1500 \<and> matchId (hd (ratingHistory p)) = None
     \<and> change (hd (ratingHistory p)) = 0
     \<and> currentRating p = 1500 + real_of_int (sum_list (map change (ratingHistory p)))
     \<and> lastChange p = change (last (ratingHistory p))"
proof -
  from assms(1) have d: "distinct (map fst (playerRatings s))" and ok: "playerOk s (fst e)"
    by (auto simp: eloInv_def)
  from d assms(2) have r: "map_of (playerRatings s) (fst e) = Some (snd e)"
    by (cases e) simp
  from assms(3) obtain g h where gh: "map_of (playerGames s) (fst e) = Some g"
    "map_of (playerHistory s) (fst e) = Some h"
    by (auto simp: buildPlayer_def split: option.splits)
  from ok have props: "length h = g + 1" "rating (hd h) = 1500" "matchId (hd h) = None"
    "change (hd h) = 0" "snd e = 1500 + real_of_int (sum_list (map change h))"
    by (simp_all add: playerOk_def r gh INITIAL_RATING_def)
  have lastc: "(if length h > 1 then change (last h) else 0) = change (last h)"
  proof (cases "length h > 1")
    case True
    then show ?thesis by simp
  next
    case False
    with props(1) have "length h = 1" by simp
    then obtain x where "h = [x]" by (cases h) auto
    with props(4) show ?thesis by simp
  qed
  from assms(3) have p: "p = \<lparr>p_id = fst e, p_name = fst e, currentRating = snd e, gamesPlayed = g,
                isCalibrated = (g \<ge> CALIBRATION_GAMES), ratingHistory = h,
                lastChange = (if length h > 1 then change (last h) else 0)\<rparr>"
    by (simp add: buildPlayer_def gh)
  show ?thesis
    unfolding p using props lastc by simp
qed

lemma keys_known: "fst ` set (playerRatings s) = known s"
  by (simp add: known_def dom_map_of_conv_image_fst)

lemma processAllMatches_Some:
  "\<exists>s acc ps. processLoop (initPlayers ms) [] ms = Some (s, acc) \<and> eloInv s
     \<and> stateBefore ms (length ms) = Some s
     \<and> buildPlayers s (playerRatings s) = Some ps
     \<and> (\<forall>p\<in>set ps. \<exists>e\<in>set (playerRatings s). buildPlayer s e = Some p)
     \<and> processAllMatches ms = Some \<lparr>players = sortBy byRatingDesc ps, matches = acc\<rparr>"
proof -
  from prefix_Some[of ms "length ms"] obtain s acc where
    pl: "processLoop (initPlayers ms) [] ms = Some (s, acc)" and inv: "eloInv s"
    by auto
  have sb: "stateBefore ms (length ms) = Some s"
    by (simp add: stateBefore_def pl)
  from buildPlayers_Some[OF inv, of "playerRatings s"] obtain ps where
    ps: "buildPlayers s (playerRatings s) = Some ps"
      "\<forall>p\<in>set ps. \<exists>e\<in>set (playerRatings s). buildPlayer s e = Some p"
    by (auto simp: keys_known)
  have "processAllMatches ms = Some \<lparr>players = sortBy byRatingDesc ps, matches = acc\<rparr>"
    by (simp add: processAllMatches_def pl ps(1))
  with pl inv sb ps show ?thesis by blast
qed

subsection \<open>The claims about the engine\<close>

lemmas elo_eval = processAllMatches_def stepMatch_def applyChange_def buildPlayer_def sortBy_def
  byRatingDesc_def processMatch_def setProperty_def protoKey_def scenarioMatch_def initPlayers_def initMatch_def initPlayer_def
  participants_def emptyState_def orDefault_def INITIAL_RATING_def calculateTeamRating_def
  calculateRatingChange_def calculateExpectedScore_def getKFactor_def CALIBRATION_GAMES_def
  K_FACTOR_CALIBRATION_def mathRound_def Let_def

lemma scenario_result:
  "processAllMatches [scenarioMatch] = Some \<lparr>players = 
    [\<lparr>p_id = [65], p_name = [65], currentRating = 1520, gamesPlayed = 1, isCalibrated = False,
       ratingHistory = [\<lparr>h_date = [], rating = 1500, matchId = None, change = 0\<rparr>,
                        \<lparr>h_date = [], rating = 1520, matchId = Some (IdNum 1), change = 20\<rparr>],
       lastChange = 20\<rparr>,
     \<lparr>p_id = [66], p_name = [66], currentRating = 1520, gamesPlayed = 1, isCalibrated = False,
       ratingHistory = [\<lparr>h_date = [], rating = 1500, matchId = None, change = 0\<rparr>,
                        \<lparr>h_date = [], rating = 1520, matchId = Some (IdNum 1), change = 20\<rparr>],
       lastChange = 20\<rparr>,
     \<lparr>p_id = [67], p_name = [67], currentRating = 1480, gamesPlayed = 1, isCalibrated = False,
       ratingHistory = [\<lparr>h_date = [], rating = 1500, matchId = None, change = 0\<rparr>,
                        \<lparr>h_date = [], rating = 1480, matchId = Some (IdNum 1), change = -20\<rparr>],
       lastChange = -20\<rparr>,
     \<lparr>p_id = [68], p_name = [68], currentRating = 1480, gamesPlayed = 1, isCalibrated = False,
       ratingHistory = [\<lparr>h_date = [], rating = 1500, matchId = None, change = 0\<rparr>,
                        \<lparr>h_date = [], rating = 1480, matchId = Some (IdNum 1), change = -20\<rparr>],
       lastChange = -20\<rparr>],
    matches = [(scenarioMatch, [([65], 20), ([66], 20), ([67], -20), ([68], -20)])]\<rparr>"
  by (simp add: elo_eval)

text \<open>
  C8. \<open>processAllMatches\<close> returns a result on every input, and every player record of
  it has a rating history of exactly \<open>gamesPlayed + 1\<close> entries whose first entry has
  rating 1500, no match id and change 0; \<open>currentRating\<close> is 1500 plus the sum of the
  changes of the history, and \<open>lastChange\<close> is the change of the last history entry
  (which is the initial snapshot, with change 0, when the player has no other entry).
\<close>

theorem processAllMatches_history_invariant:
  "\<exists>res. processAllMatches ms = Some res
     \<and> (\<forall>p\<in>set (players res).
           length (ratingHistory p) = gamesPlayed p + 1
         \<and> rating (hd (ratingHistory p)) = 1500 \<and> matchId (hd (ratingHistory p)) = None
         \<and> change (hd (ratingHistory p)) = 0
         \<and> currentRating p = 1500 + real_of_int (sum_list (map change (ratingHistory p)))
         \<and> lastChange p = change (last (ratingHistory p)))"
proof -
  from processAllMatches_Some[of ms] obtain s acc ps where
    inv: "eloInv s" and ps: "\<forall>p\<in>set ps. \<exists>e\<in>set (playerRatings s). buildPlayer s e = Some p"
    and res: "processAllMatches ms = Some \<lparr>players = sortBy byRatingDesc ps, matches = acc\<rparr>"
    by blast
  have "\<forall>p\<in>set (players \<lparr>players = sortBy byRatingDesc ps, matches = acc\<rparr>).
           length (ratingHistory p) = gamesPlayed p + 1
         \<and> rating (hd (ratingHistory p)) = 1500 \<and> matchId (hd (ratingHistory p)) = None
         \<and> change (hd (ratingHistory p)) = 0
         \<and> currentRating p = 1500 + real_of_int (sum_list (map change (ratingHistory p)))
         \<and> lastChange p = change (last (ratingHistory p))"
  proof
    fix p assume "p \<in> set (players \<lparr>players = sortBy byRatingDesc ps, matches = acc\<rparr>)"
    then have "p \<in> set ps" by (simp add: set_sortBy)
    with ps obtain e where "e \<in> set (playerRatings s)" "buildPlayer s e = Some p" by blast
    from buildPlayer_ok[OF inv this] show "length (ratingHistory p) = gamesPlayed p + 1
         \<and> rating (hd (ratingHistory p)) = 1500 \<and> matchId (hd (ratingHistory p)) = None
         \<and> change (hd (ratingHistory p)) = 0
         \<and> currentRating p = 1500 + real_of_int (sum_list (map change (ratingHistory p)))
         \<and> lastChange p = change (last (ratingHistory p))" .
  qed
  with res show ?thesis by blast
qed

theorem processAllMatches_history_invariant_witness:
  "\<exists>res. processAllMatches [scenarioMatch] = Some res \<and> length (players res) = 4
     \<and> (\<forall>p\<in>set (players res).
           length (ratingHistory p) = gamesPlayed p + 1
         \<and> rating (hd (ratingHistory p)) = 1500 \<and> matchId (hd (ratingHistory p)) = None
         \<and> change (hd (ratingHistory p)) = 0
         \<and> currentRating p = 1500 + real_of_int (sum_list (map change (ratingHistory p)))
         \<and> lastChange p = change (last (ratingHistory p)))"
  using processAllMatches_history_invariant[of "[scenarioMatch]"] scenario_result
  by auto

text \<open>
  C2. When \<open>processAllMatches\<close> is applied to the single match in which team \<open>[a, b]\<close>
  beats team \<open>[c, d]\<close> 21-15, the four players being distinct (and so all unseen) and
  none of them having the id \<open>__proto__\<close>, the change recorded with the match is +20 for \<open>a\<close> and \<open>b\<close> and -20 for \<open>c\<close> and \<open>d\<close>,
  the resulting \<open>currentRating\<close> is 1520 for \<open>a\<close> and \<open>b\<close> and 1480 for \<open>c\<close> and \<open>d\<close>,
  and \<open>gamesPlayed\<close> is 1 for all four.
\<close>

theorem scenario_general:
  assumes "distinct [a, b, c, d]" and "protoKey \<notin> set [a, b, c, d]"
  shows "\<exists>res. processAllMatches
            [\<lparr>m_id = i, m_date = dt, team1 = (a, b), team2 = (c, d), score = (21, 15), winner = 1\<rparr>]
          = Some res
     \<and> map snd (matches res) = [[(a, 20), (b, 20), (c, -20), (d, -20)]]
     \<and> map (\<lambda>p. (p_id p, currentRating p, gamesPlayed p)) (players res)
         = [(a, 1520, 1), (b, 1520, 1), (c, 1480, 1), (d, 1480, 1)]"
proof -
  from assms have ne: "a \<noteq> b" "a \<noteq> c" "a \<noteq> d" "b \<noteq> c" "b \<noteq> d" "c \<noteq> d"
    "b \<noteq> a" "c \<noteq> a" "d \<noteq> a" "c \<noteq> b" "d \<noteq> b" "d \<noteq> c"
    by auto
  from assms(2) have np: "a \<noteq> [95, 95, 112, 114, 111, 116, 111, 95, 95]"
    "b \<noteq> [95, 95, 112, 114, 111, 116, 111, 95, 95]"
    "c \<noteq> [95, 95, 112, 114, 111, 116, 111, 95, 95]"
    "d \<noteq> [95, 95, 112, 114, 111, 116, 111, 95, 95]"
    by (auto simp: protoKey_def)
  show ?thesis
    by (simp add: elo_eval ne np)
qed

theorem scenario_general_witness:
  "distinct [[65], [66], [67], [68::nat]]
   \<and> protoKey \<notin> set [[65], [66], [67], [68]]
   \<and> (\<exists>res. processAllMatches [scenarioMatch] = Some res
     \<and> map snd (matches res) = [[([65], 20), ([66], 20), ([67], -20), ([68], -20)]]
     \<and> map (\<lambda>p. (p_id p, currentRating p, gamesPlayed p)) (players res)
         = [([65], 1520, 1), ([66], 1520, 1), ([67], 1480, 1), ([68], 1480, 1)])"
proof -
  have h: "distinct [[65], [66], [67], [68::nat]]" by simp
  have n: "protoKey \<notin> set [[65], [66], [67], [68]]" by (simp add: protoKey_def)
  from scenario_general[OF h n, of "IdNum 1" "[]"] show ?thesis
    using h n by (simp add: scenarioMatch_def)
qed

lemma processMatch_distinct_eq:
  assumes "distinct (participants m)" "protoKey \<notin> set (participants m)"
  shows "processMatch m (playerRatings s) (playerGames s) =
     [(fst (team1 m), playerDelta s (fst (team1 m)) (team2 m) (winner m = 1)),
      (snd (team1 m), playerDelta s (snd (team1 m)) (team2 m) (winner m = 1)),
      (fst (team2 m), playerDelta s (fst (team2 m)) (team1 m) (winner m \<noteq> 1)),
      (snd (team2 m), playerDelta s (snd (team2 m)) (team1 m) (winner m \<noteq> 1))]"
proof -
  from assms have ne: "fst (team1 m) \<noteq> snd (team1 m)" "fst (team1 m) \<noteq> fst (team2 m)"
    "fst (team1 m) \<noteq> snd (team2 m)" "snd (team1 m) \<noteq> fst (team2 m)"
    "snd (team1 m) \<noteq> snd (team2 m)" "fst (team2 m) \<noteq> snd (team2 m)"
    by (auto simp: participants_def)
  from assms(2) have np: "fst (team1 m) \<noteq> protoKey" "snd (team1 m) \<noteq> protoKey"
    "fst (team2 m) \<noteq> protoKey" "snd (team2 m) \<noteq> protoKey"
    by (auto simp: participants_def)
  show ?thesis
    using ne np
    by (simp add: processMatch_def setProperty_def Let_def playerDelta_def ratingUsed_def
        gamesUsed_def)
qed

text \<open>
  What the second pass does with a match. The changes recorded with the match are those
  that \<open>processMatch\<close> computes from the maps as they stand before the match (state
  \<open>s\<close>), read through \<open>ratingUsed\<close> and \<open>gamesUsed\<close>. The loop that then applies them one
  after the other leaves every participant whose id is not \<open>__proto__\<close> with the stored
  pre-match rating plus the own change and the pre-match games count plus one (state
  \<open>s'\<close>), and every other player untouched, a participant with the id \<open>__proto__\<close>
  included.
\<close>

lemma frozen_update:
  assumes "k < length ms"
  shows "\<exists>s s' res. stateBefore ms k = Some s \<and> stateBefore ms (Suc k) = Some s'
     \<and> processAllMatches ms = Some res
     \<and> matches res ! k = (ms ! k, processMatch (ms ! k) (playerRatings s) (playerGames s))
     \<and> (distinct (participants (ms ! k)) \<and> protoKey \<notin> set (participants (ms ! k)) \<longrightarrow>
           processMatch (ms ! k) (playerRatings s) (playerGames s) =
             [(fst (team1 (ms ! k)), playerDelta s (fst (team1 (ms ! k))) (team2 (ms ! k)) (winner (ms ! k) = 1)),
              (snd (team1 (ms ! k)), playerDelta s (snd (team1 (ms ! k))) (team2 (ms ! k)) (winner (ms ! k) = 1)),
              (fst (team2 (ms ! k)), playerDelta s (fst (team2 (ms ! k))) (team1 (ms ! k)) (winner (ms ! k) \<noteq> 1)),
              (snd (team2 (ms ! k)), playerDelta s (snd (team2 (ms ! k))) (team1 (ms ! k)) (winner (ms ! k) \<noteq> 1))])
     \<and> (\<forall>p\<in>set (participants (ms ! k)) - {protoKey}. \<exists>r g d.
            map_of (playerRatings s) p = Some r \<and> map_of (playerGames s) p = Some g
          \<and> map_of (processMatch (ms ! k) (playerRatings s) (playerGames s)) p = Some d
          \<and> map_of (playerRatings s') p = Some (r + real_of_int d)
          \<and> map_of (playerGames s') p = Some (g + 1))
     \<and> (\<forall>p. p \<notin> set (participants (ms ! k)) - {protoKey} \<longrightarrow>
            map_of (playerRatings s') p = map_of (playerRatings s) p
          \<and> map_of (playerGames s') p = map_of (playerGames s) p)"
proof -
  let ?m = "ms ! k"
  from stateBefore_Some[of ms k] obtain s where
    s: "stateBefore ms k = Some s" "eloInv s" "known s = known (initPlayers ms)"
    by blast
  let ?rc = "processMatch ?m (playerRatings s) (playerGames s)"
  have sub: "set (participants ?m) \<subseteq> known s"
    using participants_known_init[of ?m ms] assms s(3) by simp
  from stepMatch_Some[OF s(2) sub] obtain s' where
    st: "stepMatch s ?m = Some (s', (?m, ?rc))"
    and R: "\<And>q. map_of (playerRatings s') q =
              (case map_of ?rc q of None \<Rightarrow> map_of (playerRatings s) q
               | Some d \<Rightarrow> map_option (\<lambda>r. r + real_of_int d) (map_of (playerRatings s) q))"
    and G: "\<And>q. map_of (playerGames s') q =
              (case map_of ?rc q of None \<Rightarrow> map_of (playerGames s) q
               | Some d \<Rightarrow> map_option Suc (map_of (playerGames s) q))"
    by blast
  from stateBefore_step[OF assms s(1)] st have s': "stateBefore ms (Suc k) = Some s'"
    by auto
  from processAllMatches_Some[of ms] obtain sf acc ps where
    pl: "processLoop (initPlayers ms) [] ms = Some (sf, acc)"
    and res: "processAllMatches ms = Some \<lparr>players = sortBy byRatingDesc ps, matches = acc\<rparr>"
    by blast
  have nth: "matches \<lparr>players = sortBy byRatingDesc ps, matches = acc\<rparr> ! k = (?m, ?rc)"
    using processLoop_nth[OF assms s(1) pl] by simp
  have part: "\<forall>p\<in>set (participants ?m) - {protoKey}. \<exists>r g d.
            map_of (playerRatings s) p = Some r \<and> map_of (playerGames s) p = Some g
          \<and> map_of ?rc p = Some d
          \<and> map_of (playerRatings s') p = Some (r + real_of_int d)
          \<and> map_of (playerGames s') p = Some (g + 1)"
  proof
    fix p assume p: "p \<in> set (participants ?m) - {protoKey}"
    with sub have "p \<in> known s" by blast
    from playerOk_known[OF _ this] s(2) obtain r g where
      rg: "map_of (playerRatings s) p = Some r" "map_of (playerGames s) p = Some g"
      by (auto simp: eloInv_def)
    from p have "p \<in> fst ` set ?rc" by (simp add: processMatch_keys)
    then obtain d where d: "map_of ?rc p = Some d"
      by (metis domD dom_map_of_conv_image_fst)
    show "\<exists>r g d. map_of (playerRatings s) p = Some r \<and> map_of (playerGames s) p = Some g
          \<and> map_of ?rc p = Some d
          \<and> map_of (playerRatings s') p = Some (r + real_of_int d)
          \<and> map_of (playerGames s') p = Some (g + 1)"
      using rg d R[of p] G[of p] by simp
  qed
  have other: "\<forall>p. p \<notin> set (participants ?m) - {protoKey} \<longrightarrow>
            map_of (playerRatings s') p = map_of (playerRatings s) p
          \<and> map_of (playerGames s') p = map_of (playerGames s) p"
  proof (intro allI impI)
    fix p assume "p \<notin> set (participants ?m) - {protoKey}"
    then have "p \<notin> fst ` set ?rc" by (simp add: processMatch_keys)
    then have "map_of ?rc p = None" by (simp add: map_of_eq_None_iff)
    then show "map_of (playerRatings s') p = map_of (playerRatings s) p
          \<and> map_of (playerGames s') p = map_of (playerGames s) p"
      using R[of p] G[of p] by simp
  qed
  have expl: "distinct (participants ?m) \<and> protoKey \<notin> set (participants ?m) \<longrightarrow> ?rc =
             [(fst (team1 ?m), playerDelta s (fst (team1 ?m)) (team2 ?m) (winner ?m = 1)),
              (snd (team1 ?m), playerDelta s (snd (team1 ?m)) (team2 ?m) (winner ?m = 1)),
              (fst (team2 ?m), playerDelta s (fst (team2 ?m)) (team1 ?m) (winner ?m \<noteq> 1)),
              (snd (team2 ?m), playerDelta s (snd (team2 ?m)) (team1 ?m) (winner ?m \<noteq> 1))]"
    using processMatch_distinct_eq by blast
  show ?thesis
    using s(1) s' res nth expl part other by blast
qed

subsection \<open>The values that a match reads\<close>

lemma initFresh_initPlayer: "initFresh s \<Longrightarrow> initFresh (initPlayer m s p)"
  by (auto simp: initFresh_def initPlayer_def update_conv')

lemma initFresh_foldl_initPlayer: "initFresh s \<Longrightarrow> initFresh (foldl (initPlayer m) s ps)"
  by (induction ps arbitrary: s) (simp_all add: initFresh_initPlayer)

lemma initFresh_foldl_initMatch: "initFresh s \<Longrightarrow> initFresh (foldl initMatch s ms)"
  by (induction ms arbitrary: s) (simp_all add: initMatch_def initFresh_foldl_initPlayer)

lemma initFresh_empty: "initFresh emptyState"
  by (simp add: initFresh_def emptyState_def)

lemma initFresh_initPlayers: "initFresh (initPlayers ms)"
  unfolding initPlayers_def by (rule initFresh_foldl_initMatch[OF initFresh_empty])

lemma init_values:
  assumes "p \<in> known (initPlayers ms)"
  shows "map_of (playerRatings (initPlayers ms)) p = Some INITIAL_RATING
       \<and> map_of (playerGames (initPlayers ms)) p = Some 0"
  using assms initFresh_initPlayers[of ms] by (auto simp: initFresh_def known_def)

lemma ratingAfter_snoc:
  "ratingAfter (xs @ [pm]) p = ratingAfter xs p + real_of_int (changeOf (snd pm) p)"
  by (simp add: ratingAfter_def)

lemma gamesIn_snoc:
  "gamesIn (xs @ [m]) p = gamesIn xs p + (if p \<in> set (participants m) then 1 else 0)"
  by (simp add: gamesIn_def)

lemma lookup_tracks_history:
  assumes "processLoop (initPlayers ms) [] ms = Some (sf, acc)" "p \<in> known (initPlayers ms)"
    "k \<le> length ms" "p \<noteq> protoKey"
  shows "\<exists>s. stateBefore ms k = Some s
     \<and> map_of (playerRatings s) p = Some (ratingAfter (take k acc) p)
     \<and> map_of (playerGames s) p = Some (gamesIn (take k ms) p)"
  using assms(3)
proof (induction k)
  case 0
  have "stateBefore ms 0 = Some (initPlayers ms)" by (simp add: stateBefore_def)
  then show ?case
    using init_values[OF assms(2)] by (simp add: ratingAfter_def gamesIn_def)
next
  case (Suc k)
  then have klt: "k < length ms" by simp
  from Suc obtain s where s: "stateBefore ms k = Some s"
    "map_of (playerRatings s) p = Some (ratingAfter (take k acc) p)"
    "map_of (playerGames s) p = Some (gamesIn (take k ms) p)"
    by auto
  let ?m = "ms ! k"
  let ?rc = "processMatch ?m (playerRatings s) (playerGames s)"
  from stateBefore_Some[of ms k] s(1) have inv: "eloInv s" and kn: "known s = known (initPlayers ms)"
    by auto
  have sub: "set (participants ?m) \<subseteq> known s"
    using participants_known_init[of ?m ms] klt kn by simp
  from stepMatch_Some[OF inv sub] obtain s' where
    st: "stepMatch s ?m = Some (s', (?m, ?rc))"
    and R: "\<And>q. map_of (playerRatings s') q =
              (case map_of ?rc q of None \<Rightarrow> map_of (playerRatings s) q
               | Some d \<Rightarrow> map_option (\<lambda>r. r + real_of_int d) (map_of (playerRatings s) q))"
    and G: "\<And>q. map_of (playerGames s') q =
              (case map_of ?rc q of None \<Rightarrow> map_of (playerGames s) q
               | Some d \<Rightarrow> map_option Suc (map_of (playerGames s) q))"
    by blast
  from stateBefore_step[OF klt s(1)] st have s': "stateBefore ms (Suc k) = Some s'"
    by auto
  have nth: "acc ! k = (?m, ?rc)"
    using processLoop_nth[OF klt s(1) assms(1)] .
  from prefix_Some[of ms "length ms"] assms(1) have "length acc = length ms" by simp
  with klt have tk: "take (Suc k) acc = take k acc @ [acc ! k]"
    by (simp add: take_Suc_conv_app_nth)
  from klt have tm: "take (Suc k) ms = take k ms @ [?m]"
    by (simp add: take_Suc_conv_app_nth)
  have keys: "(map_of ?rc p = None) = (p \<notin> set (participants ?m))"
    using processMatch_keys[of ?m "playerRatings s" "playerGames s"] assms(4)
    by (simp add: map_of_eq_None_iff)
  have "map_of (playerRatings s') p = Some (ratingAfter (take (Suc k) acc) p)"
    using R[of p] s(2) by (simp add: tk nth ratingAfter_snoc changeOf_def split: option.splits)
  moreover have "map_of (playerGames s') p = Some (gamesIn (take (Suc k) ms) p)"
    using G[of p] s(3) keys by (auto simp: tm gamesIn_snoc split: option.splits)
  ultimately show ?case using s' by blast
qed

lemma ratingUsed_lookup:
  "map_of rs p = Some r \<Longrightarrow> ratingUsed rs p = (if r = 0 then INITIAL_RATING else r)"
  by (simp add: ratingUsed_def orDefault_def)

lemma gamesUsed_lookup: "map_of gs p = Some g \<Longrightarrow> gamesUsed gs p = g"
  by (simp add: gamesUsed_def orDefault_def)

lemma used_values_track_history:
  assumes "k < length ms" "p \<in> set (participants (ms ! k))" "p \<noteq> protoKey"
  shows "\<exists>s res. stateBefore ms k = Some s \<and> processAllMatches ms = Some res
     \<and> ratingUsed (playerRatings s) p =
         (if ratingAfter (take k (matches res)) p = 0 then INITIAL_RATING
          else ratingAfter (take k (matches res)) p)
     \<and> gamesUsed (playerGames s) p = gamesIn (take k ms) p"
proof -
  from processAllMatches_Some[of ms] obtain sf acc ps where
    pl: "processLoop (initPlayers ms) [] ms = Some (sf, acc)"
    and res: "processAllMatches ms = Some \<lparr>players = sortBy byRatingDesc ps, matches = acc\<rparr>"
    by blast
  have "p \<in> known (initPlayers ms)"
    using participants_known_init[of "ms ! k" ms] assms by auto
  from lookup_tracks_history[OF pl this _ assms(3), of k] assms(1) obtain s where
    s: "stateBefore ms k = Some s"
     "map_of (playerRatings s) p = Some (ratingAfter (take k acc) p)"
     "map_of (playerGames s) p = Some (gamesIn (take k ms) p)"
    by auto
  show ?thesis
    using s(1) res ratingUsed_lookup[OF s(2)] gamesUsed_lookup[OF s(3)] by simp
qed

lemma powr_lower: "10 powr (15 / 4) \<ge> (100::real)"
proof -
  have "(10::real) powr 2 \<le> 10 powr (15 / 4)"
    by (rule powr_mono) simp_all
  then show ?thesis by simp
qed

lemma powr_upper: "10 powr (- (15 / 8)) < (1 / 63 :: real)"
proof -
  have A: "((63::real) powr 8) powr (1 / 8) = 63 powr (8 * (1 / 8))" by (rule powr_powr)
  have B: "((10::real) powr 15) powr (1 / 8) = 10 powr (15 * (1 / 8))" by (rule powr_powr)
  have "((63::real) powr 8) powr (1 / 8) < (10 powr 15) powr (1 / 8)"
    by (rule powr_less_mono2) simp_all
  then have "(63::real) powr (8 * (1 / 8)) < 10 powr (15 * (1 / 8))"
    by (simp only: A B)
  then have "63 < (10::real) powr (15 / 8)" by simp
  then have "1 / (10 powr (15 / 8)) < 1 / (63::real)"
    by (simp add: frac_less2)
  then show ?thesis by (simp add: powr_minus_divide)
qed

lemma true_rating_changes:
  "calculateRatingChange 0 (calculateTeamRating 1500 1500) True 30 = 32
   \<and> calculateRatingChange 1500 (calculateTeamRating 0 1500) False 30 = - 32"
proof -
  have a: "calculateRatingChange 0 (calculateTeamRating 1500 1500) True 30 = 32"
  proof -
    define e :: real where "e = 1 / (1 + 10 powr (15 / 4))"
    have "e \<le> 1 / 101" unfolding e_def using powr_lower by (simp add: frac_le)
    moreover have "e > 0" unfolding e_def using powr_lower by simp
    ultimately have "\<lfloor>32 * (1 - e) + 1 / 2\<rfloor> = 32"
      by (intro floor_unique) simp_all
    then show ?thesis
      by (simp add: calculateRatingChange_def calculateExpectedScore_def getKFactor_def
          calculateTeamRating_def CALIBRATION_GAMES_def K_FACTOR_DEFAULT_def mathRound_def
          Let_def e_def)
  qed
  have b: "calculateRatingChange 1500 (calculateTeamRating 0 1500) False 30 = - 32"
  proof -
    define y :: real where "y = 10 powr (- (15 / 8))"
    define e :: real where "e = 1 / (1 + y)"
    have y: "0 < y" "y < 1 / 63" unfolding y_def using powr_upper by simp_all
    have "e > 63 / 64"
      unfolding e_def using y by (simp add: field_simps)
    moreover have "e < 1" unfolding e_def using y by simp
    ultimately have "\<lfloor>32 * (0 - e) + 1 / 2\<rfloor> = - 32"
      by (intro floor_unique) simp_all
    then show ?thesis
      by (simp add: calculateRatingChange_def calculateExpectedScore_def getKFactor_def
          calculateTeamRating_def CALIBRATION_GAMES_def K_FACTOR_DEFAULT_def mathRound_def
          Let_def e_def y_def)
  qed
  from a b show ?thesis by simp
qed

text \<open>
  C7. The rating that a match uses for a participant is meant to be the player's current
  rating (1500 exactly for an unseen player), and the games count used the number of the
  player's earlier matches. The lemma \<open>used_values_track_history\<close> shows this for the
  games count, and for the
  rating whenever the current rating is not 0 (for every id but \<open>__proto__\<close>, whose
  changes are never applied). At a current rating of exactly 0 the read
  \<open>playerRatings.get(id) || INITIAL_RATING\<close> yields 1500: with the maps \<open>zeroRatings\<close> and
  \<open>zeroGames\<close>, player \<open>A\<close> has the rating 0, yet \<open>processMatch\<close> uses 1500 for \<open>A\<close> and
  returns the changes +16, +16, -16, -16 of four equally rated players, where the
  current ratings give +32 for \<open>A\<close> (rating 0 against an average of 1500) and -32 for
  each opponent (rating 1500 against an average of 750).
\<close>

theorem processMatch_zero_rating:
  "map_of zeroRatings [65] = Some 0
   \<and> ratingUsed zeroRatings [65] = 1500
   \<and> processMatch scenarioMatch zeroRatings zeroGames
       = [([65], 16), ([66], 16), ([67], -16), ([68], -16)]
   \<and> calculateRatingChange 0 (calculateTeamRating 1500 1500) True 30 = 32
   \<and> calculateRatingChange 1500 (calculateTeamRating 0 1500) False 30 = - 32"
  using true_rating_changes
  by (simp add: zeroRatings_def zeroGames_def ratingUsed_def elo_eval K_FACTOR_DEFAULT_def)

text \<open>
  C3. The changes of a match are meant to be computed from the ratings and games counts
  as they stood before the match, and each of the four participants to get the own change
  and one more game. The lemma \<open>frozen_update\<close> shows the order of events to be this one:
  all changes are computed from the pre-match maps before any is applied. Two inputs
  break the rest. In the single match \<open>protoMatch\<close> the participant with the id
  \<open>__proto__\<close> gets no entry in \<open>ratingChanges\<close>: three changes are recorded and applied,
  and that participant keeps the rating 1500, no game and a history of one entry. And in
  the state \<open>zeroState\<close>, where the rating of \<open>A\<close> stands at 0, the iteration records the
  changes +16, +16, -16, -16 of four players rated 1500 and leaves \<open>A\<close> at 16 and \<open>C\<close> at
  1484, where the ratings as they stood give +32 for \<open>A\<close> and -32 for \<open>C\<close>.
\<close>

theorem frozen_update_failing_inputs:
  "map_option
     (\<lambda>res. (map snd (matches res),
             map (\<lambda>p. (p_id p, currentRating p, gamesPlayed p, length (ratingHistory p)))
               (players res)))
     (processAllMatches [protoMatch])
   = Some ([[([66], 20), ([67], -20), ([68], -20)]],
           [([66], 1520, 1, 2), (protoKey, 1500, 0, 1), ([67], 1480, 1, 2), ([68], 1480, 1, 2)])
   \<and> map_of (playerRatings zeroState) [65] = Some 0
   \<and> map_option
         (\<lambda>r. (snd (snd r), map_of (playerRatings (fst r)) [65],
               map_of (playerGames (fst r)) [65], map_of (playerRatings (fst r)) [67]))
         (stepMatch zeroState scenarioMatch)
       = Some ([([65], 16), ([66], 16), ([67], -16), ([68], -16)], Some 16, Some 31, Some 1484)
   \<and> calculateRatingChange 0 (calculateTeamRating 1500 1500) True 30 = 32
   \<and> calculateRatingChange 1500 (calculateTeamRating 0 1500) False 30 = - 32"
proof -
  have a: "map_option
     (\<lambda>res. (map snd (matches res),
             map (\<lambda>p. (p_id p, currentRating p, gamesPlayed p, length (ratingHistory p)))
               (players res)))
     (processAllMatches [protoMatch])
   = Some ([[([66], 20), ([67], -20), ([68], -20)]],
           [([66], 1520, 1, 2), (protoKey, 1500, 0, 1), ([67], 1480, 1, 2), ([68], 1480, 1, 2)])"
    by (simp add: protoMatch_def elo_eval)
  have b: "map_of (playerRatings zeroState) [65] = Some 0"
    by (simp add: zeroState_def zeroRatings_def)
  have c: "map_option
         (\<lambda>r. (snd (snd r), map_of (playerRatings (fst r)) [65],
               map_of (playerGames (fst r)) [65], map_of (playerRatings (fst r)) [67]))
         (stepMatch zeroState scenarioMatch)
       = Some ([([65], 16), ([66], 16), ([67], -16), ([68], -16)], Some 16, Some 31, Some 1484)"
    by (simp add: zeroState_def zeroRatings_def zeroGames_def initialSnapshot_def elo_eval
        K_FACTOR_DEFAULT_def)
  from a b c true_rating_changes show ?thesis
    by (intro conjI) simp_all
qed
section \<open>Properties of the gender heuristic\<close>

lemmas gender_eval = getGender_def getGender_db_def firstNameOf_def FEMALE_NAMES_def
  FEMALE_NAMES_db_def maleExceptions_def MALE_EXCEPTIONS_def endsWith_def sliceLast_def
  toLowerCase_def toLowerUnit_def preobrazhenskayaEk_def ivanovaSofya_def ivanovNikita_def Let_def

text \<open>
  C10, as stated, fails on both copies of \<open>getGender\<close>. On the tournament page the
  full name \<open>preobrazhenskayaEk\<close> is itself an entry of \<open>FEMALE_NAMES\<close>: its first name
  \<open>Ek.\<close> is not in the set and has none of the three suffixes, and the result is
  female. In the import script a first name that ends in soft sign + ya is male: the
  first name of \<open>ivanovaSofya\<close> is not in the set, is no male exception and ends in that
  suffix, and the result is male.
\<close>

theorem getGender_counterexample:
  "firstNameOf preobrazhenskayaEk = [1045, 1082, 46]
   \<and> [1045, 1082, 46] \<notin> set FEMALE_NAMES
   \<and> \<not> endsWith [1045, 1082, 46] [1072] \<and> \<not> endsWith [1045, 1082, 46] [1103]
   \<and> \<not> endsWith [1045, 1082, 46] [1100, 1103]
   \<and> getGender preobrazhenskayaEk = Female
   \<and> firstNameOf ivanovaSofya = [1057, 1086, 1092, 1100, 1103]
   \<and> [1057, 1086, 1092, 1100, 1103] \<notin> set FEMALE_NAMES_db
   \<and> [1057, 1086, 1092, 1100, 1103] \<notin> set MALE_EXCEPTIONS
   \<and> endsWith [1057, 1086, 1092, 1100, 1103] [1100, 1103]
   \<and> getGender_db ivanovaSofya = Male"
  by (simp add: gender_eval)

text \<open>
  C10, amended. On the tournament page, for every full name that is not itself in
  \<open>FEMALE_NAMES\<close> and whose first name is not in \<open>FEMALE_NAMES\<close>, \<open>getGender\<close> returns
  female if and only if the first name ends in Cyrillic a, ya or soft sign + ya and is
  not one of the male exceptions; otherwise it returns male. In the import script, for
  every full name whose first name is not in its set of female names, \<open>getGender\<close>
  returns female if and only if the first name is not one of the male exceptions, its
  last two characters lower-cased are not soft sign + ya, and its last character
  lower-cased is a or ya; otherwise it returns male.
\<close>

theorem getGender_suffix_rule:
  "(fullName \<notin> set FEMALE_NAMES \<and> firstNameOf fullName \<notin> set FEMALE_NAMES \<longrightarrow>
      (getGender fullName = Female \<longleftrightarrow>
         (endsWith (firstNameOf fullName) [1072] \<or> endsWith (firstNameOf fullName) [1103]
          \<or> endsWith (firstNameOf fullName) [1100, 1103])
         \<and> firstNameOf fullName \<notin> set maleExceptions)
      \<and> (getGender fullName \<noteq> Female \<longleftrightarrow> getGender fullName = Male))
   \<and> (firstNameOf fullName \<notin> set FEMALE_NAMES_db \<longrightarrow>
      (getGender_db fullName = Female \<longleftrightarrow>
         firstNameOf fullName \<notin> set MALE_EXCEPTIONS
         \<and> toLowerCase (sliceLast 2 (firstNameOf fullName)) \<noteq> [1100, 1103]
         \<and> (toLowerCase (sliceLast 1 (firstNameOf fullName)) = [1072]
            \<or> toLowerCase (sliceLast 1 (firstNameOf fullName)) = [1103]))
      \<and> (getGender_db fullName \<noteq> Female \<longleftrightarrow> getGender_db fullName = Male))"
proof -
  have ui: "getGender fullName = Female \<longleftrightarrow>
         (endsWith (firstNameOf fullName) [1072] \<or> endsWith (firstNameOf fullName) [1103]
          \<or> endsWith (firstNameOf fullName) [1100, 1103])
         \<and> firstNameOf fullName \<notin> set maleExceptions"
    if "fullName \<notin> set FEMALE_NAMES" "firstNameOf fullName \<notin> set FEMALE_NAMES"
    using that by (simp add: getGender_def Let_def)
  have db: "getGender_db fullName = Female \<longleftrightarrow>
         firstNameOf fullName \<notin> set MALE_EXCEPTIONS
         \<and> toLowerCase (sliceLast 2 (firstNameOf fullName)) \<noteq> [1100, 1103]
         \<and> (toLowerCase (sliceLast 1 (firstNameOf fullName)) = [1072]
            \<or> toLowerCase (sliceLast 1 (firstNameOf fullName)) = [1103])"
    if "firstNameOf fullName \<notin> set FEMALE_NAMES_db"
    using that by (simp add: getGender_db_def Let_def)
  have two: "(g \<noteq> Female) = (g = Male)" for g
    by (cases g) simp_all
  show ?thesis
    using ui db two by blast
qed

theorem getGender_suffix_rule_witness:
  "ivanovaSofya \<notin> set FEMALE_NAMES \<and> firstNameOf ivanovaSofya \<notin> set FEMALE_NAMES
   \<and> getGender ivanovaSofya = Female
   \<and> firstNameOf ivanovaSofya \<notin> set FEMALE_NAMES_db
   \<and> getGender_db ivanovaSofya = Male
   \<and> ivanovNikita \<notin> set FEMALE_NAMES \<and> firstNameOf ivanovNikita \<notin> set FEMALE_NAMES
   \<and> getGender ivanovNikita = Male
   \<and> firstNameOf ivanovNikita \<notin> set FEMALE_NAMES_db
   \<and> getGender_db ivanovNikita = Male"
proof -
  have fs: "firstNameOf ivanovaSofya = [1057, 1086, 1092, 1100, 1103]"
    and fn: "firstNameOf ivanovNikita = [1053, 1080, 1082, 1080, 1090, 1072]"
    by (simp_all add: firstNameOf_def ivanovaSofya_def ivanovNikita_def)
  have hs: "ivanovaSofya \<notin> set FEMALE_NAMES" "firstNameOf ivanovaSofya \<notin> set FEMALE_NAMES"
    "firstNameOf ivanovaSofya \<notin> set FEMALE_NAMES_db"
    unfolding fs by (simp_all add: ivanovaSofya_def FEMALE_NAMES_def FEMALE_NAMES_db_def)
  have hn: "ivanovNikita \<notin> set FEMALE_NAMES" "firstNameOf ivanovNikita \<notin> set FEMALE_NAMES"
    "firstNameOf ivanovNikita \<notin> set FEMALE_NAMES_db"
    unfolding fn by (simp_all add: ivanovNikita_def FEMALE_NAMES_def FEMALE_NAMES_db_def)
  have ss: "endsWith (firstNameOf ivanovaSofya) [1103]"
    "firstNameOf ivanovaSofya \<notin> set maleExceptions"
    "toLowerCase (sliceLast 2 (firstNameOf ivanovaSofya)) = [1100, 1103]"
    unfolding fs
    by (simp_all add: endsWith_def maleExceptions_def toLowerCase_def sliceLast_def toLowerUnit_def)
  have sn: "firstNameOf ivanovNikita \<in> set maleExceptions"
    "firstNameOf ivanovNikita \<in> set MALE_EXCEPTIONS"
    unfolding fn by (simp_all add: maleExceptions_def MALE_EXCEPTIONS_def)
  from getGender_suffix_rule[of ivanovaSofya] hs ss
  have a: "getGender ivanovaSofya = Female" "getGender_db ivanovaSofya = Male"
    by blast+
  from getGender_suffix_rule[of ivanovNikita] hn sn
  have b: "getGender ivanovNikita = Male" "getGender_db ivanovNikita = Male"
    by blast+
  show ?thesis
    using hs hn a b by simp
qed

section \<open>Properties of the standings engine\<close>

subsection \<open>The accumulators after the loop\<close>

text \<open>
  The loop returns a map on every input. Its keys are the names in the order of their
  first encounter in the played matches, and the accumulators of a player are the sum of
  what the matches contribute.
\<close>

lemma addTotals_zero [simp]: "addTotals t zeroTotals = t" "addTotals zeroTotals t = t"
  by (cases t; simp add: zeroTotals_def)+

lemma addTotals_assoc: "addTotals (addTotals a b) c = addTotals a (addTotals b c)"
  by (cases a; cases b; cases c) simp

lemma addTotals_commute: "addTotals a b = addTotals b a"
  by (cases a; cases b) simp

lemma addTotals_left_commute: "addTotals a (addTotals b c) = addTotals b (addTotals a c)"
  by (cases a; cases b; cases c) simp

lemma fold_contrib_start:
  "fold (\<lambda>m t. addTotals t (contrib p m)) ms t = addTotals t (tally p ms)"
  unfolding tally_def
proof (induction ms arbitrary: t)
  case Nil
  then show ?case by simp
next
  case (Cons m ms)
  show ?case
    using Cons.IH[of "addTotals t (contrib p m)"] Cons.IH[of "addTotals zeroTotals (contrib p m)"]
    by (simp add: addTotals_assoc)
qed

lemma tally_append: "tally p (xs @ ys) = addTotals (tally p xs) (tally p ys)"
proof -
  have "tally p (xs @ ys) = fold (\<lambda>m t. addTotals t (contrib p m)) ys (tally p xs)"
    by (simp add: tally_def)
  then show ?thesis by (simp add: fold_contrib_start)
qed

lemma tally_perm:
  assumes "mset xs = mset ys"
  shows "tally p xs = tally p ys"
  unfolding tally_def
proof (rule fun_cong[OF fold_multiset_equiv[OF _ assms]])
  fix x y
  show "(\<lambda>t. addTotals t (contrib p x)) \<circ> (\<lambda>t. addTotals t (contrib p y))
      = (\<lambda>t. addTotals t (contrib p y)) \<circ> (\<lambda>t. addTotals t (contrib p x))"
    by (auto simp: fun_eq_iff addTotals_assoc addTotals_commute[of "contrib p x"])
qed


lemma update_absent: "map_of al k = None \<Longrightarrow> AList.update k v al = al @ [(k, v)]"
  by (induction al) (auto split: if_splits)

lemma set_update_subset: "set (AList.update k v al) \<subseteq> insert (k, v) (set al)"
  by (induction al) auto

lemma totalsOf_newRow: "totalsOf (newRow n) = zeroTotals"
  by (simp add: totalsOf_def newRow_def zeroTotals_def)

lemma ensurePlayer_props:
  assumes "rowsOk ps"
  shows "rowsOk (ensurePlayer ps n)"
    and "map fst (ensurePlayer ps n) = addKey (map fst ps) n"
    and "totalsIn (ensurePlayer ps n) q = totalsIn ps q"
proof -
  show "rowsOk (ensurePlayer ps n)"
    using assms
    by (auto simp: rowsOk_def ensurePlayer_def update_absent newRow_def map_of_eq_None_iff)
  show "map fst (ensurePlayer ps n) = addKey (map fst ps) n"
    by (auto simp: ensurePlayer_def addKey_def update_absent map_of_eq_None_iff)
  show "totalsIn (ensurePlayer ps n) q = totalsIn ps q"
    by (auto simp: ensurePlayer_def totalsIn_def update_conv' totalsOf_newRow)
qed

lemma foldl_ensurePlayer_props:
  assumes "rowsOk ps"
  shows "rowsOk (foldl ensurePlayer ps ns)
     \<and> map fst (foldl ensurePlayer ps ns) = foldl addKey (map fst ps) ns
     \<and> totalsIn (foldl ensurePlayer ps ns) q = totalsIn ps q"
  using assms
proof (induction ns arbitrary: ps)
  case Nil
  then show ?case by simp
next
  case (Cons n ns)
  from Cons.IH[OF ensurePlayer_props(1)[OF Cons.prems, of n]] show ?case
    by (simp add: ensurePlayer_props(2,3)[OF Cons.prems])
qed

lemma set_foldl_addKey: "set (foldl addKey ks ns) = set ks \<union> set ns"
  by (induction ns arbitrary: ks) (auto simp: addKey_def)

lemma creditPlayer_props:
  assumes "rowsOk ps" "n \<in> set (map fst ps)"
  shows "\<exists>ps'. creditPlayer m my opp w ps n = Some ps' \<and> rowsOk ps'
     \<and> map fst ps' = map fst ps
     \<and> (\<forall>q. totalsIn ps' q = addTotals (totalsIn ps q) (creditIf (n = q) (credit my opp w)))"
proof -
  from assms(2) obtain p where p: "map_of ps n = Some p"
    by (metis domD dom_map_of_conv_image_fst list.set_map)
  define p' where "p' = p\<lparr>games := games p + 1,
                   wins := (if w then wins p + 1 else wins p),
                   losses := (if w then losses p else losses p + 1),
                   italianPoints := italianPoints p + getItalianPoints my opp,
                   ballsFor := ballsFor p + my,
                   ballsAgainst := ballsAgainst p + opp,
                   matchDetails := matchDetails p @
                     [\<lparr>d_id = m_id m, myScore = my, oppScore = opp, won = w,
                       diff = \<bar>my - opp\<bar>, points = getItalianPoints my opp\<rparr>]\<rparr>"
  have eq: "creditPlayer m my opp w ps n = Some (AList.update n p' ps)"
    by (simp add: creditPlayer_def p Let_def p'_def)
  from assms(1) p have pn: "name p = n" "gender p = getGender n"
    by (auto simp: rowsOk_def dest: map_of_SomeD)
  have ok: "rowsOk (AList.update n p' ps)"
    unfolding rowsOk_def
  proof (intro conjI ballI)
    show "distinct (map fst (AList.update n p' ps))"
      using assms(1) by (simp add: rowsOk_def distinct_update)
  next
    fix e assume "e \<in> set (AList.update n p' ps)"
    then have "e = (n, p') \<or> e \<in> set ps" using set_update_subset by fastforce
    then show "name (snd e) = fst e" "gender (snd e) = getGender (fst e)"
      using assms(1) pn by (auto simp: rowsOk_def p'_def)
  qed
  have keys: "map fst (AList.update n p' ps) = map fst ps"
    using assms(2) by (simp add: update_keys)
  have tp: "totalsOf p' = addTotals (totalsOf p) (credit my opp w)"
    by (simp add: totalsOf_def p'_def credit_def)
  have tot: "totalsIn (AList.update n p' ps) q
       = addTotals (totalsIn ps q) (creditIf (n = q) (credit my opp w))" for q
    using p tp by (auto simp: totalsIn_def update_conv' creditIf_def)
  show ?thesis using eq ok keys tot by blast
qed

lemma creditTeam_props:
  assumes "rowsOk ps" "set ns \<subseteq> set (map fst ps)"
  shows "\<exists>ps'. creditTeam m my opp w ps ns = Some ps' \<and> rowsOk ps'
     \<and> map fst ps' = map fst ps
     \<and> (\<forall>q. totalsIn ps' q =
           fold (\<lambda>n t. addTotals t (creditIf (n = q) (credit my opp w))) ns (totalsIn ps q))"
  using assms
proof (induction ns arbitrary: ps)
  case Nil
  then show ?case by simp
next
  case (Cons n ns)
  then have n: "n \<in> set (map fst ps)" by simp
  from creditPlayer_props[OF Cons.prems(1) n, of m my opp w] obtain ps1 where
    ps1: "creditPlayer m my opp w ps n = Some ps1" "rowsOk ps1" "map fst ps1 = map fst ps"
    and t1: "\<And>q. totalsIn ps1 q = addTotals (totalsIn ps q) (creditIf (n = q) (credit my opp w))"
    by blast
  from Cons.prems(2) ps1(3) have "set ns \<subseteq> set (map fst ps1)" by simp
  from Cons.IH[OF ps1(2) this] obtain ps' where
    ps': "creditTeam m my opp w ps1 ns = Some ps'" "rowsOk ps'" "map fst ps' = map fst ps1"
    and t': "\<And>q. totalsIn ps' q =
           fold (\<lambda>n t. addTotals t (creditIf (n = q) (credit my opp w))) ns (totalsIn ps1 q)"
    by blast
  have "creditTeam m my opp w ps (n # ns) = Some ps'" by (simp add: ps1(1) ps'(1))
  moreover have "map fst ps' = map fst ps" by (simp add: ps'(3) ps1(3))
  moreover have "\<forall>q. totalsIn ps' q =
           fold (\<lambda>n t. addTotals t (creditIf (n = q) (credit my opp w))) (n # ns) (totalsIn ps q)"
    by (simp add: t' t1)
  ultimately show ?case using ps'(2) by blast
qed

lemma standingsMatch_props:
  assumes "rowsOk ps"
  shows "\<exists>ps'. standingsMatch ps m = Some ps' \<and> rowsOk ps'
     \<and> map fst ps' = (if played m then foldl addKey (map fst ps) (participants m) else map fst ps)
     \<and> (\<forall>q. totalsIn ps' q = addTotals (totalsIn ps q) (contrib q m))"
proof (cases "played m")
  case False
  then show ?thesis
    using assms by (simp add: standingsMatch_def played_def contrib_def)
next
  case True
  define ps1 where "ps1 = foldl ensurePlayer ps (participants m)"
  from foldl_ensurePlayer_props[OF assms, of "participants m"] have
    ok1: "rowsOk ps1" and k1: "map fst ps1 = foldl addKey (map fst ps) (participants m)"
    and t1: "\<And>q. totalsIn ps1 q = totalsIn ps q"
    by (simp_all add: ps1_def)
  have in1: "set [fst (team1 m), snd (team1 m)] \<subseteq> set (map fst ps1)"
    "set [fst (team2 m), snd (team2 m)] \<subseteq> set (map fst ps1)"
    unfolding k1 set_foldl_addKey by (auto simp: participants_def)
  let ?w = "fst (score m) > snd (score m)"
  from creditTeam_props[OF ok1 in1(1), of m "fst (score m)" "snd (score m)" ?w] obtain ps2 where
    ps2: "creditTeam m (fst (score m)) (snd (score m)) ?w ps1 [fst (team1 m), snd (team1 m)] = Some ps2"
      "rowsOk ps2" "map fst ps2 = map fst ps1"
    and t2: "\<And>q. totalsIn ps2 q =
           fold (\<lambda>n t. addTotals t (creditIf (n = q) (credit (fst (score m)) (snd (score m)) ?w)))
             [fst (team1 m), snd (team1 m)] (totalsIn ps1 q)"
    by blast
  from in1(2) ps2(3) have in2: "set [fst (team2 m), snd (team2 m)] \<subseteq> set (map fst ps2)" by simp
  from creditTeam_props[OF ps2(2) in2, of m "snd (score m)" "fst (score m)" "\<not> ?w"] obtain ps3 where
    ps3: "creditTeam m (snd (score m)) (fst (score m)) (\<not> ?w) ps2 [fst (team2 m), snd (team2 m)] = Some ps3"
      "rowsOk ps3" "map fst ps3 = map fst ps2"
    and t3: "\<And>q. totalsIn ps3 q =
           fold (\<lambda>n t. addTotals t (creditIf (n = q) (credit (snd (score m)) (fst (score m)) (\<not> ?w))))
             [fst (team2 m), snd (team2 m)] (totalsIn ps2 q)"
    by blast
  have eq: "standingsMatch ps m = Some ps3"
    using True by (simp add: standingsMatch_def played_def Let_def ps1_def[symmetric] ps2(1) ps3(1)
        del: creditTeam.simps)
  have keys: "map fst ps3 = foldl addKey (map fst ps) (participants m)"
    by (simp add: ps3(3) ps2(3) k1)
  have tot: "totalsIn ps3 q = addTotals (totalsIn ps q) (contrib q m)" for q
    using True by (simp add: t3 t2 t1 contrib_def played_def addTotals_assoc)
  show ?thesis using eq ps3(2) keys tot True by auto
qed

lemma standingsLoop_props:
  assumes "rowsOk ps"
  shows "\<exists>ps'. standingsLoop ps ms = Some ps' \<and> rowsOk ps'
     \<and> map fst ps' = foldl addKey (map fst ps) (concat (map participants (filter played ms)))
     \<and> (\<forall>q. totalsIn ps' q = addTotals (totalsIn ps q) (tally q ms))"
  using assms
proof (induction ms arbitrary: ps)
  case Nil
  then show ?case by (simp add: tally_def)
next
  case (Cons m ms)
  from standingsMatch_props[OF Cons.prems, of m] obtain ps1 where
    ps1: "standingsMatch ps m = Some ps1" "rowsOk ps1"
      "map fst ps1 = (if played m then foldl addKey (map fst ps) (participants m) else map fst ps)"
    and t1: "\<And>q. totalsIn ps1 q = addTotals (totalsIn ps q) (contrib q m)"
    by blast
  from Cons.IH[OF ps1(2)] obtain ps' where
    ps': "standingsLoop ps1 ms = Some ps'" "rowsOk ps'"
      "map fst ps' = foldl addKey (map fst ps1) (concat (map participants (filter played ms)))"
    and t': "\<And>q. totalsIn ps' q = addTotals (totalsIn ps1 q) (tally q ms)"
    by blast
  have "standingsLoop ps (m # ms) = Some ps'" by (simp add: ps1(1) ps'(1))
  moreover have "map fst ps' =
      foldl addKey (map fst ps) (concat (map participants (filter played (m # ms))))"
    by (simp add: ps'(3) ps1(3))
  moreover have "\<forall>q. totalsIn ps' q = addTotals (totalsIn ps q) (tally q (m # ms))"
  proof
    fix q
    have "tally q (m # ms) = addTotals (contrib q m) (tally q ms)"
      using tally_append[of q "[m]" ms] by (simp add: tally_def)
    then show "totalsIn ps' q = addTotals (totalsIn ps q) (tally q (m # ms))"
      by (simp add: t' t1 addTotals_assoc)
  qed
  ultimately show ?case using ps'(2) by blast
qed


subsection \<open>The sort\<close>

lemma insertBy_sorted:
  fixes cmp :: "'a \<Rightarrow> 'a \<Rightarrow> 'b::{zero,ord}"
  assumes tot: "\<And>x y. cmp x y \<le> 0 \<or> cmp y x \<le> 0"
    and trans: "\<And>x y z. cmp x y \<le> 0 \<Longrightarrow> cmp y z \<le> 0 \<Longrightarrow> cmp x z \<le> 0"
    and srt: "sorted_wrt (\<lambda>a b. cmp a b \<le> 0 \<and> (cmp b a \<le> 0 \<longrightarrow> R a b)) ys"
    and before: "\<forall>y\<in>set ys. R x y"
  shows "sorted_wrt (\<lambda>a b. cmp a b \<le> 0 \<and> (cmp b a \<le> 0 \<longrightarrow> R a b)) (insertBy cmp x ys)"
  using srt before
proof (induction ys)
  case Nil
  then show ?case by simp
next
  case (Cons y ys)
  show ?case
  proof (cases "cmp x y \<le> 0")
    case True
    have "cmp x z \<le> 0" if "z \<in> set ys" for z
      using Cons.prems(1) that True trans by auto
    then show ?thesis
      using True Cons.prems by auto
  next
    case False
    then have yx: "cmp y x \<le> 0" using tot by blast
    have "sorted_wrt (\<lambda>a b. cmp a b \<le> 0 \<and> (cmp b a \<le> 0 \<longrightarrow> R a b)) (insertBy cmp x ys)"
      using Cons by simp
    then show ?thesis
      using False yx Cons.prems(1) by (auto simp: set_insertBy)
  qed
qed

lemma sortBy_sorted:
  fixes cmp :: "'a \<Rightarrow> 'a \<Rightarrow> 'b::{zero,ord}"
  assumes tot: "\<And>x y. cmp x y \<le> 0 \<or> cmp y x \<le> 0"
    and trans: "\<And>x y z. cmp x y \<le> 0 \<Longrightarrow> cmp y z \<le> 0 \<Longrightarrow> cmp x z \<le> 0"
    and orig: "sorted_wrt R xs"
  shows "sorted_wrt (\<lambda>a b. cmp a b \<le> 0 \<and> (cmp b a \<le> 0 \<longrightarrow> R a b)) (sortBy cmp xs)"
  using orig
proof (induction xs)
  case Nil
  then show ?case by (simp add: sortBy_def)
next
  case (Cons x xs)
  then have IH: "sorted_wrt (\<lambda>a b. cmp a b \<le> 0 \<and> (cmp b a \<le> 0 \<longrightarrow> R a b)) (sortBy cmp xs)"
    and bef: "\<forall>y\<in>set (sortBy cmp xs). R x y"
    by (simp_all add: set_sortBy)
  have "sortBy cmp (x # xs) = insertBy cmp x (sortBy cmp xs)" by (simp add: sortBy_def)
  then show ?case
    using insertBy_sorted[of cmp R "sortBy cmp xs" x, OF tot trans IH bef] by simp
qed

lemma mset_insertBy: "mset (insertBy cmp x xs) = add_mset x (mset xs)"
  by (induction xs) auto

lemma mset_sortBy: "mset (sortBy cmp xs) = mset xs"
  by (induction xs) (simp_all add: sortBy_def mset_insertBy)

lemma compareStandings_le:
  "compareStandings a b \<le> 0 \<longleftrightarrow>
     italianPoints b < italianPoints a
     \<or> (italianPoints b = italianPoints a \<and> ballsDiff b \<le> ballsDiff a)"
  by (auto simp: compareStandings_def)

lemma indexOf_sorted:
  "distinct xs \<Longrightarrow> sorted_wrt (\<lambda>a b. indexOf xs a < indexOf xs b) xs"
proof (induction xs)
  case Nil
  then show ?case by simp
next
  case (Cons x xs)
  then have "sorted_wrt (\<lambda>a b. indexOf xs a < indexOf xs b) xs" by simp
  then have "sorted_wrt (\<lambda>a b. indexOf (x # xs) a < indexOf (x # xs) b) xs"
    using Cons.prems by (auto intro!: sorted_wrt_mono_rel[of xs "\<lambda>a b. indexOf xs a < indexOf xs b"])
  then show ?case using Cons.prems by auto
qed

lemma rankRows_nth:
  "i < length rows \<Longrightarrow> rankRows rows ! i = (i + 1, rows ! i)"
  by (simp add: rankRows_def nth_enumerate_eq)

lemma length_rankRows: "length (rankRows rows) = length rows"
  by (simp add: rankRows_def)

lemma distinct_foldl_addKey: "distinct ks \<Longrightarrow> distinct (foldl addKey ks ns)"
  by (induction ns arbitrary: ks) (auto simp: addKey_def)

lemma rowsOk_empty: "rowsOk []"
  by (simp add: rowsOk_def)

lemma names_rows: "rowsOk ps \<Longrightarrow> map name (map snd ps) = map fst ps"
  by (auto simp: rowsOk_def)

lemma passesFilter_all: "filter (passesFilter FilterAll) rs = rs"
  by (simp add: passesFilter_def)

lemma name_withBallsDiff: "name (withBallsDiff r) = name r"
  by (simp add: withBallsDiff_def)

lemma filter_played_all: "\<forall>m\<in>set ms. fst (score m) \<noteq> snd (score m) \<Longrightarrow> filter played ms = ms"
  by (induction ms) (auto simp: played_def)

lemma standings_unsorted:
  "\<exists>ps. standingsLoop [] ms = Some ps \<and> rowsOk ps
     \<and> map fst ps = encounterOrder (filter played ms)
     \<and> (\<forall>q. totalsIn ps q = tally q ms)
     \<and> calculateStandings f ms =
          Some (sortBy compareStandings (map withBallsDiff (filter (passesFilter f) (map snd ps))))"
proof -
  from standingsLoop_props[OF rowsOk_empty, of ms] obtain ps where
    ps: "standingsLoop [] ms = Some ps" "rowsOk ps"
      "map fst ps = foldl addKey (map fst ([] :: (jstring \<times> standingsRow) list))
         (concat (map participants (filter played ms)))"
    and t: "\<forall>q. totalsIn ps q = addTotals (totalsIn [] q) (tally q ms)"
    by blast
  have "totalsIn [] q = zeroTotals" for q by (simp add: totalsIn_def)
  with t have t': "\<forall>q. totalsIn ps q = tally q ms" by simp
  have "calculateStandings f ms =
          Some (sortBy compareStandings (map withBallsDiff (filter (passesFilter f) (map snd ps))))"
    by (simp add: calculateStandings_def ps(1))
  with ps t' show ?thesis by (auto simp: encounterOrder_def)
qed

lemmas standings_eval = calculateStandings_def standingsMatch_def creditPlayer_def ensurePlayer_def
  newRow_def participants_def sortBy_def compareStandings_def withBallsDiff_def passesFilter_def
  getItalianPoints_def getGender_def firstNameOf_def FEMALE_NAMES_def maleExceptions_def
  endsWith_def groupMatch1_def groupMatch2_def drawMatch_def groupMatch4_def Let_def

lemma group14_result:
  "map_option (map (\<lambda>r. (name r, italianPoints r, ballsDiff r)))
     (calculateStandings FilterAll [groupMatch1, groupMatch4])
   = Some [([69], 3, 11), ([70], 3, 11), ([65], 3, 6), ([66], 3, 6),
           ([67], 0, -6), ([68], 0, -6), ([71], 0, -11), ([72], 0, -11)]"
  by (simp add: standings_eval)

lemma group12_accumulator:
  "map_option (\<lambda>rows. accumulator rows [65])
     (calculateStandings FilterAll ([groupMatch1] @ [groupMatch2]))
   = Some (Some (2, 1, 1, 4, 34, 30))"
  by (simp add: standings_eval accumulator_def totalsOf_def)

lemma group12_names:
  "map_option (map name) (calculateStandings FilterAll [groupMatch1, groupMatch2])
   = Some [[66], [65], [68], [67]]"
  by (simp add: standings_eval)

text \<open>
  C5. For every list of group matches with unequal scores and the gender filter
  \<open>'all'\<close>, \<open>calculateStandings\<close> returns a list with one row for each player encountered,
  in which any row placed earlier has strictly greater \<open>italianPoints\<close> than any later
  row, or equal \<open>italianPoints\<close> and a greater or equal points difference; two rows equal
  on both keys stand in the order in which their players were first encountered in the
  match list; and the rank that the table prints for a row is its position counted from 1.
\<close>

theorem calculateStandings_sorted:
  assumes "\<forall>m\<in>set ms. fst (score m) \<noteq> snd (score m)"
  shows "\<exists>rows. calculateStandings FilterAll ms = Some rows
     \<and> mset (map name rows) = mset (encounterOrder ms)
     \<and> sorted_wrt (\<lambda>a b. italianPoints a > italianPoints b
                      \<or> (italianPoints a = italianPoints b \<and> ballsDiff a \<ge> ballsDiff b)) rows
     \<and> sorted_wrt (\<lambda>a b. italianPoints a = italianPoints b \<and> ballsDiff a = ballsDiff b \<longrightarrow>
                      indexOf (encounterOrder ms) (name a) < indexOf (encounterOrder ms) (name b)) rows
     \<and> (\<forall>r\<in>set rows. ballsDiff r = ballsFor r - ballsAgainst r)
     \<and> (\<forall>i<length rows. rankRows rows ! i = (i + 1, rows ! i))"
proof -
  from standings_unsorted[of ms FilterAll] obtain ps where
    ok: "rowsOk ps" and keys: "map fst ps = encounterOrder (filter played ms)"
    and res: "calculateStandings FilterAll ms =
          Some (sortBy compareStandings (map withBallsDiff (filter (passesFilter FilterAll) (map snd ps))))"
    by blast
  define unsorted where "unsorted = map withBallsDiff (map snd ps)"
  define rows where "rows = sortBy compareStandings unsorted"
  let ?order = "encounterOrder ms"
  let ?R = "\<lambda>a b. indexOf ?order (name a) < indexOf ?order (name b)"
  have keys': "map fst ps = ?order"
    using keys filter_played_all[OF assms] by simp
  have res': "calculateStandings FilterAll ms = Some rows"
    using res by (simp add: passesFilter_all rows_def unsorted_def)
  have names: "map name unsorted = ?order"
    using names_rows[OF ok] keys' by (simp add: unsorted_def name_withBallsDiff comp_def)
  have "distinct ?order" using ok keys' by (simp add: rowsOk_def)
  then have "sorted_wrt (\<lambda>a b. indexOf ?order a < indexOf ?order b) (map name unsorted)"
    unfolding names by (rule indexOf_sorted)
  then have orig: "sorted_wrt ?R unsorted"
    by (simp add: sorted_wrt_map)
  have tot: "compareStandings x y \<le> 0 \<or> compareStandings y x \<le> 0" for x y
    by (auto simp: compareStandings_le)
  have trans: "compareStandings x y \<le> 0 \<Longrightarrow> compareStandings y z \<le> 0
      \<Longrightarrow> compareStandings x z \<le> 0" for x y z
    by (auto simp: compareStandings_le)
  have srt: "sorted_wrt (\<lambda>a b. compareStandings a b \<le> 0 \<and> (compareStandings b a \<le> 0 \<longrightarrow> ?R a b)) rows"
    unfolding rows_def using sortBy_sorted[of compareStandings ?R unsorted, OF tot trans orig] .
  have s1: "sorted_wrt (\<lambda>a b. italianPoints a > italianPoints b
                      \<or> (italianPoints a = italianPoints b \<and> ballsDiff a \<ge> ballsDiff b)) rows"
    by (rule sorted_wrt_mono_rel[OF _ srt]) (auto simp: compareStandings_le)
  have s2: "sorted_wrt (\<lambda>a b. italianPoints a = italianPoints b \<and> ballsDiff a = ballsDiff b \<longrightarrow>
                      ?R a b) rows"
    by (rule sorted_wrt_mono_rel[OF _ srt]) (auto simp: compareStandings_le)
  have "mset (map name rows) = image_mset name (mset unsorted)"
    by (simp add: rows_def mset_sortBy)
  also have "\<dots> = mset (map name unsorted)" by simp
  finally have ms: "mset (map name rows) = mset ?order"
    by (simp only: names)
  have bd: "\<forall>r\<in>set rows. ballsDiff r = ballsFor r - ballsAgainst r"
    by (auto simp: rows_def set_sortBy unsorted_def withBallsDiff_def)
  show ?thesis
    using res' ms s1 s2 bd rankRows_nth by blast
qed

theorem calculateStandings_sorted_witness:
  "fst (score groupMatch1) \<noteq> snd (score groupMatch1)
   \<and> fst (score groupMatch4) \<noteq> snd (score groupMatch4)
   \<and> encounterOrder [groupMatch1, groupMatch4]
       = [[65], [66], [67], [68], [69], [70], [71], [72]]
   \<and> (\<exists>rows. calculateStandings FilterAll [groupMatch1, groupMatch4] = Some rows
        \<and> map (\<lambda>r. (name r, italianPoints r, ballsDiff r)) rows
            = [([69], 3, 11), ([70], 3, 11), ([65], 3, 6), ([66], 3, 6),
               ([67], 0, -6), ([68], 0, -6), ([71], 0, -11), ([72], 0, -11)]
        \<and> sorted_wrt (\<lambda>a b. italianPoints a > italianPoints b
                      \<or> (italianPoints a = italianPoints b \<and> ballsDiff a \<ge> ballsDiff b)) rows
        \<and> sorted_wrt (\<lambda>a b. italianPoints a = italianPoints b \<and> ballsDiff a = ballsDiff b \<longrightarrow>
                      indexOf (encounterOrder [groupMatch1, groupMatch4]) (name a)
                        < indexOf (encounterOrder [groupMatch1, groupMatch4]) (name b)) rows
        \<and> rankRows rows ! 0 = (1, rows ! 0))"
proof -
  have h1: "fst (score groupMatch1) \<noteq> snd (score groupMatch1)"
    and h4: "fst (score groupMatch4) \<noteq> snd (score groupMatch4)"
    by (simp_all add: groupMatch1_def groupMatch4_def)
  then have h: "\<forall>m\<in>set [groupMatch1, groupMatch4]. fst (score m) \<noteq> snd (score m)"
    by simp
  have eo: "encounterOrder [groupMatch1, groupMatch4]
       = [[65], [66], [67], [68], [69], [70], [71], [72]]"
    by (simp add: encounterOrder_def addKey_def participants_def groupMatch1_def groupMatch4_def)
  from calculateStandings_sorted[OF h] obtain rows where
    rows: "calculateStandings FilterAll [groupMatch1, groupMatch4] = Some rows"
    and s1: "sorted_wrt (\<lambda>a b. italianPoints a > italianPoints b
                      \<or> (italianPoints a = italianPoints b \<and> ballsDiff a \<ge> ballsDiff b)) rows"
    and s2: "sorted_wrt (\<lambda>a b. italianPoints a = italianPoints b \<and> ballsDiff a = ballsDiff b \<longrightarrow>
                      indexOf (encounterOrder [groupMatch1, groupMatch4]) (name a)
                        < indexOf (encounterOrder [groupMatch1, groupMatch4]) (name b)) rows"
    and rk: "\<forall>i<length rows. rankRows rows ! i = (i + 1, rows ! i)"
    by blast
  from group14_result rows have ev: "map (\<lambda>r. (name r, italianPoints r, ballsDiff r)) rows
            = [([69], 3, 11), ([70], 3, 11), ([65], 3, 6), ([66], 3, 6),
               ([67], 0, -6), ([68], 0, -6), ([71], 0, -11), ([72], 0, -11)]"
    by simp
  from arg_cong[OF ev, of length] have "0 < length rows" by simp
  with rk have r0: "rankRows rows ! 0 = (1, rows ! 0)" by simp
  have "\<exists>rows. calculateStandings FilterAll [groupMatch1, groupMatch4] = Some rows
        \<and> map (\<lambda>r. (name r, italianPoints r, ballsDiff r)) rows
            = [([69], 3, 11), ([70], 3, 11), ([65], 3, 6), ([66], 3, 6),
               ([67], 0, -6), ([68], 0, -6), ([71], 0, -11), ([72], 0, -11)]
        \<and> sorted_wrt (\<lambda>a b. italianPoints a > italianPoints b
                      \<or> (italianPoints a = italianPoints b \<and> ballsDiff a \<ge> ballsDiff b)) rows
        \<and> sorted_wrt (\<lambda>a b. italianPoints a = italianPoints b \<and> ballsDiff a = ballsDiff b \<longrightarrow>
                      indexOf (encounterOrder [groupMatch1, groupMatch4]) (name a)
                        < indexOf (encounterOrder [groupMatch1, groupMatch4]) (name b)) rows
        \<and> rankRows rows ! 0 = (1, rows ! 0)"
    by (intro exI[of _ rows] conjI) (fact rows ev s1 s2 r0)+
  with h1 h4 eo show ?thesis by (intro conjI)
qed


subsection \<open>The accumulators of the result\<close>

lemma find_same_set:
  assumes "\<forall>x\<in>set xs. \<forall>y\<in>set xs. P x \<and> P y \<longrightarrow> x = y" "set ys = set xs"
  shows "find P ys = find P xs"
proof (cases "find P xs")
  case None
  then have "find P ys = None" using assms(2) by (simp add: find_None_iff)
  with None show ?thesis by simp
next
  case (Some x)
  then have x: "x \<in> set xs" "P x"
    by (auto simp: find_Some_iff)
  then have "\<exists>y\<in>set ys. P y" using assms(2) by auto
  then obtain y where y: "find P ys = Some y"
    by (cases "find P ys") (auto simp: find_None_iff)
  then have "y \<in> set ys" "P y" by (auto simp: find_Some_iff)
  with x assms have "y = x" by auto
  with y Some show ?thesis by simp
qed

lemma rowsOk_tail: "rowsOk (e # ps) \<Longrightarrow> rowsOk ps"
  by (simp add: rowsOk_def)

lemma find_unsorted:
  assumes "rowsOk ps"
  shows "find (\<lambda>r. name r = p) (map withBallsDiff (filter pass (map snd ps)))
     = (case map_of ps p of None \<Rightarrow> None
        | Some r \<Rightarrow> if pass r then Some (withBallsDiff r) else None)"
  using assms
proof (induction ps)
  case Nil
  then show ?case by simp
next
  case (Cons e ps)
  from Cons.prems have ne: "name (snd e) = fst e" and notin: "fst e \<notin> fst ` set ps"
    by (auto simp: rowsOk_def)
  have IH: "find (\<lambda>r. name r = p) (map withBallsDiff (filter pass (map snd ps)))
     = (case map_of ps p of None \<Rightarrow> None
        | Some r \<Rightarrow> if pass r then Some (withBallsDiff r) else None)"
    using Cons.IH[OF rowsOk_tail[OF Cons.prems]] .
  show ?case
  proof (cases "fst e = p")
    case True
    with notin have "map_of ps p = None" by (simp add: map_of_eq_None_iff)
    with IH True ne show ?thesis
      by (cases e) (auto simp: name_withBallsDiff)
  next
    case False
    with IH ne show ?thesis
      by (cases e) (auto simp: name_withBallsDiff)
  qed
qed

lemma unique_names:
  assumes "rowsOk ps"
  shows "\<forall>x\<in>set (map withBallsDiff (filter pass (map snd ps))).
         \<forall>y\<in>set (map withBallsDiff (filter pass (map snd ps))).
           name x = p \<and> name y = p \<longrightarrow> x = y"
proof (intro ballI impI)
  fix x y
  assume "x \<in> set (map withBallsDiff (filter pass (map snd ps)))"
    "y \<in> set (map withBallsDiff (filter pass (map snd ps)))" "name x = p \<and> name y = p"
  then obtain ex ey where e: "ex \<in> set ps" "ey \<in> set ps" "x = withBallsDiff (snd ex)"
    "y = withBallsDiff (snd ey)" "name (snd ex) = p" "name (snd ey) = p"
    by (auto simp: name_withBallsDiff)
  with assms have "fst ex = fst ey" by (auto simp: rowsOk_def)
  with assms e(1,2) have "ex = ey"
    by (metis eq_key_imp_eq_value prod.collapse rowsOk_def)
  with e show "x = y" by simp
qed

lemma totalsOf_withBallsDiff: "totalsOf (withBallsDiff r) = totalsOf r"
  by (simp add: totalsOf_def withBallsDiff_def)

lemma set_encounterOrder: "set (encounterOrder ms) = (\<Union>m\<in>set ms. set (participants m))"
  by (simp add: encounterOrder_def set_foldl_addKey)

lemma accumulator_closed:
  "\<exists>rows. calculateStandings f ms = Some rows
     \<and> (\<forall>p. accumulator rows p =
           (if p \<in> set (encounterOrder (filter played ms))
               \<and> (f = FilterAll \<or> FilterGender (getGender p) = f)
            then Some (tally p ms) else None))"
proof -
  from standings_unsorted[of ms f] obtain ps where
    ok: "rowsOk ps" and keys: "map fst ps = encounterOrder (filter played ms)"
    and tot: "\<And>q. totalsIn ps q = tally q ms"
    and res: "calculateStandings f ms =
          Some (sortBy compareStandings (map withBallsDiff (filter (passesFilter f) (map snd ps))))"
    by blast
  let ?unsorted = "map withBallsDiff (filter (passesFilter f) (map snd ps))"
  have "accumulator (sortBy compareStandings ?unsorted) p =
           (if p \<in> set (encounterOrder (filter played ms))
               \<and> (f = FilterAll \<or> FilterGender (getGender p) = f)
            then Some (tally p ms) else None)" for p
  proof -
    have "find (\<lambda>r. name r = p) (sortBy compareStandings ?unsorted)
        = find (\<lambda>r. name r = p) ?unsorted"
      by (rule find_same_set[OF unique_names[OF ok] set_sortBy])
    also have "\<dots> = (case map_of ps p of None \<Rightarrow> None
        | Some r \<Rightarrow> if passesFilter f r then Some (withBallsDiff r) else None)"
      by (rule find_unsorted[OF ok])
    finally have fnd: "find (\<lambda>r. name r = p) (sortBy compareStandings ?unsorted)
       = (case map_of ps p of None \<Rightarrow> None
        | Some r \<Rightarrow> if passesFilter f r then Some (withBallsDiff r) else None)" .
    show ?thesis
    proof (cases "map_of ps p")
      case None
      then have "p \<notin> set (map fst ps)" by (simp add: map_of_eq_None_iff)
      with None fnd keys show ?thesis by (simp add: accumulator_def)
    next
      case (Some r)
      then have "(p, r) \<in> set ps" by (rule map_of_SomeD)
      with ok have g: "gender r = getGender p" and pin: "p \<in> set (map fst ps)"
        by (force simp: rowsOk_def)+
      have "totalsOf r = tally p ms" using tot[of p] Some by (simp add: totalsIn_def)
      with Some fnd g pin keys show ?thesis
        by (auto simp: accumulator_def passesFilter_def totalsOf_withBallsDiff)
    qed
  qed
  with res show ?thesis by simp
qed

lemma contrib_zero:
  "played m \<longrightarrow> p \<notin> set (participants m) \<Longrightarrow> contrib p m = zeroTotals"
  by (auto simp: contrib_def played_def participants_def creditIf_def)

lemma tally_zero:
  assumes "p \<notin> set (encounterOrder (filter played ms))"
  shows "tally p ms = zeroTotals"
  using assms
proof (induction ms)
  case Nil
  then show ?case by (simp add: tally_def)
next
  case (Cons m ms)
  have split: "tally p (m # ms) = addTotals (contrib p m) (tally p ms)"
    using tally_append[of p "[m]" ms] by (simp add: tally_def)
  from Cons.prems have "played m \<longrightarrow> p \<notin> set (participants m)"
    and "p \<notin> set (encounterOrder (filter played ms))"
    by (auto simp: set_encounterOrder)
  then show ?case
    using Cons.IH contrib_zero[of m p] by (simp add: split)
qed

text \<open>
  C6. For every split of a match list into \<open>xs\<close> and \<open>ys\<close> (and every gender filter),
  merging for each player the accumulators of the standings of \<open>xs\<close> and of \<open>ys\<close>
  field-wise (games, wins, losses, Italian points, points for, points against; a call
  where the player has no row contributes nothing) gives the accumulators of the
  standings of \<open>xs @ ys\<close>; and the standings of any permutation of the list hold the
  same accumulators for every player.
\<close>

theorem calculateStandings_monoid:
  "\<exists>r1 r2 r. calculateStandings f xs = Some r1 \<and> calculateStandings f ys = Some r2
     \<and> calculateStandings f (xs @ ys) = Some r
     \<and> (\<forall>p. accumulator r p = mergeAcc (accumulator r1 p) (accumulator r2 p))
     \<and> (\<forall>zs. mset zs = mset (xs @ ys) \<longrightarrow>
           (\<exists>r'. calculateStandings f zs = Some r' \<and> (\<forall>p. accumulator r' p = accumulator r p)))"
proof -
  from accumulator_closed[of f xs] obtain r1 where
    r1: "calculateStandings f xs = Some r1"
    and a1: "\<And>p. accumulator r1 p =
           (if p \<in> set (encounterOrder (filter played xs))
               \<and> (f = FilterAll \<or> FilterGender (getGender p) = f)
            then Some (tally p xs) else None)"
    by blast
  from accumulator_closed[of f ys] obtain r2 where
    r2: "calculateStandings f ys = Some r2"
    and a2: "\<And>p. accumulator r2 p =
           (if p \<in> set (encounterOrder (filter played ys))
               \<and> (f = FilterAll \<or> FilterGender (getGender p) = f)
            then Some (tally p ys) else None)"
    by blast
  from accumulator_closed[of f "xs @ ys"] obtain r where
    r: "calculateStandings f (xs @ ys) = Some r"
    and a: "\<And>p. accumulator r p =
           (if p \<in> set (encounterOrder (filter played (xs @ ys)))
               \<and> (f = FilterAll \<or> FilterGender (getGender p) = f)
            then Some (tally p (xs @ ys)) else None)"
    by blast
  have merge: "accumulator r p = mergeAcc (accumulator r1 p) (accumulator r2 p)" for p
  proof -
    have un: "set (encounterOrder (filter played (xs @ ys)))
        = set (encounterOrder (filter played xs)) \<union> set (encounterOrder (filter played ys))"
      by (auto simp: set_encounterOrder)
    show ?thesis
      unfolding a a1 a2 un
      using tally_zero[of p xs] tally_zero[of p ys]
      by (auto simp: tally_append)
  qed
  have perm: "\<exists>r'. calculateStandings f zs = Some r' \<and> (\<forall>p. accumulator r' p = accumulator r p)"
    if "mset zs = mset (xs @ ys)" for zs
  proof -
    from accumulator_closed[of f zs] obtain r' where
      r': "calculateStandings f zs = Some r'"
      and a': "\<And>p. accumulator r' p =
           (if p \<in> set (encounterOrder (filter played zs))
               \<and> (f = FilterAll \<or> FilterGender (getGender p) = f)
            then Some (tally p zs) else None)"
      by blast
    from that have "set zs = set (xs @ ys)" by (rule mset_eq_setD)
    then have "set (encounterOrder (filter played zs))
        = set (encounterOrder (filter played (xs @ ys)))"
      by (auto simp: set_encounterOrder)
    then have "accumulator r' p = accumulator r p" for p
      unfolding a a' using tally_perm[OF that, of p] by simp
    with r' show ?thesis by blast
  qed
  show ?thesis using r1 r2 r merge perm by blast
qed

theorem calculateStandings_monoid_witness:
  "mset [groupMatch2, groupMatch1] = mset ([groupMatch1] @ [groupMatch2])
   \<and> (\<exists>r1 r2 r r'. calculateStandings FilterAll [groupMatch1] = Some r1
        \<and> calculateStandings FilterAll [groupMatch2] = Some r2
        \<and> calculateStandings FilterAll ([groupMatch1] @ [groupMatch2]) = Some r
        \<and> calculateStandings FilterAll [groupMatch2, groupMatch1] = Some r'
        \<and> accumulator r [65] = mergeAcc (accumulator r1 [65]) (accumulator r2 [65])
        \<and> accumulator r [65] = Some (2, 1, 1, 4, 34, 30)
        \<and> accumulator r' [65] = accumulator r [65])"
proof -
  have ms: "mset [groupMatch2, groupMatch1] = mset ([groupMatch1] @ [groupMatch2])"
    by (simp add: add_mset_commute)
  from calculateStandings_monoid[of FilterAll "[groupMatch1]" "[groupMatch2]"] obtain r1 r2 r where
    r: "calculateStandings FilterAll [groupMatch1] = Some r1"
       "calculateStandings FilterAll [groupMatch2] = Some r2"
       "calculateStandings FilterAll ([groupMatch1] @ [groupMatch2]) = Some r"
    and merge: "\<forall>p. accumulator r p = mergeAcc (accumulator r1 p) (accumulator r2 p)"
    and perm: "\<forall>zs. mset zs = mset ([groupMatch1] @ [groupMatch2]) \<longrightarrow>
           (\<exists>r'. calculateStandings FilterAll zs = Some r' \<and> (\<forall>p. accumulator r' p = accumulator r p))"
    by blast
  from perm ms obtain r' where
    r': "calculateStandings FilterAll [groupMatch2, groupMatch1] = Some r'"
      "\<forall>p. accumulator r' p = accumulator r p"
    by blast
  from group12_accumulator r(3) have acc: "accumulator r [65] = Some (2, 1, 1, 4, 34, 30)"
    by simp
  show ?thesis
    using ms r r' merge acc by blast
qed


subsection \<open>Draws\<close>

lemma standingsLoop_skip_draws:
  "standingsLoop ps (filter (\<lambda>m. fst (score m) \<noteq> snd (score m)) ms) = standingsLoop ps ms"
  by (induction ms arbitrary: ps) (auto simp: standingsMatch_def split: option.splits)

lemma standingsLoop_legacy_skip_draws:
  "standingsLoop_legacy ps (filter (\<lambda>m. fst (score m) \<noteq> snd (score m)) ms)
     = standingsLoop_legacy ps ms"
  by (induction ms arbitrary: ps) (auto simp: standingsMatch_legacy_def split: option.splits)

lemma filter_all_draws:
  "\<forall>m\<in>set ms. fst (score m) = snd (score m)
     \<Longrightarrow> filter (\<lambda>m. fst (score m) \<noteq> snd (score m)) ms = []"
  by (induction ms) auto

text \<open>The earlier page's loop returns a map on every input.\<close>

lemma ensurePlayer_legacy_keys:
  "fst ` set (ensurePlayer_legacy ps n) = insert n (fst ` set ps)"
  by (auto simp: ensurePlayer_legacy_def dom_update map_of_eq_None_iff)

lemma foldl_ensurePlayer_legacy_keys:
  "fst ` set (foldl ensurePlayer_legacy ps ns) = fst ` set ps \<union> set ns"
  by (induction ns arbitrary: ps) (auto simp: ensurePlayer_legacy_keys)

lemma creditTeam_legacy_Some:
  assumes "set ns \<subseteq> fst ` set ps"
  shows "\<exists>ps'. creditTeam_legacy my opp w ps ns = Some ps' \<and> fst ` set ps' = fst ` set ps"
  using assms
proof (induction ns arbitrary: ps)
  case Nil
  then show ?case by simp
next
  case (Cons n ns)
  then have "n \<in> fst ` set ps" by simp
  then obtain p where p: "map_of ps n = Some p"
    by (metis domD dom_map_of_conv_image_fst)
  define ps1 where "ps1 = AList.update n
            (p\<lparr>l_games := l_games p + 1,
               l_wins := (if w then l_wins p + 1 else l_wins p),
               l_losses := (if w then l_losses p else l_losses p + 1),
               pointsFor := pointsFor p + my,
               pointsAgainst := pointsAgainst p + opp\<rparr>) ps"
  have c: "creditPlayer_legacy my opp w ps n = Some ps1"
    by (simp add: creditPlayer_legacy_def p ps1_def)
  have k: "fst ` set ps1 = fst ` set ps"
    using \<open>n \<in> fst ` set ps\<close> by (auto simp: ps1_def dom_update)
  with Cons.prems have "set ns \<subseteq> fst ` set ps1" by simp
  from Cons.IH[OF this] obtain ps' where
    "creditTeam_legacy my opp w ps1 ns = Some ps'" "fst ` set ps' = fst ` set ps1"
    by blast
  then show ?case using c k by simp
qed

lemma standingsMatch_legacy_Some: "\<exists>ps'. standingsMatch_legacy ps m = Some ps'"
proof (cases "fst (score m) = snd (score m)")
  case True
  then show ?thesis by (simp add: standingsMatch_legacy_def)
next
  case False
  define ps1 where "ps1 = foldl ensurePlayer_legacy ps (participants m)"
  have k1: "fst ` set ps1 = fst ` set ps \<union> set (participants m)"
    by (simp add: ps1_def foldl_ensurePlayer_legacy_keys)
  then have "set [fst (team1 m), snd (team1 m)] \<subseteq> fst ` set ps1"
    by (auto simp: participants_def)
  from creditTeam_legacy_Some[OF this] obtain ps2 where
    ps2: "creditTeam_legacy (fst (score m)) (snd (score m)) (fst (score m) > snd (score m)) ps1
            [fst (team1 m), snd (team1 m)] = Some ps2" "fst ` set ps2 = fst ` set ps1"
    by blast
  with k1 have "set [fst (team2 m), snd (team2 m)] \<subseteq> fst ` set ps2"
    by (auto simp: participants_def)
  from creditTeam_legacy_Some[OF this] obtain ps3 where
    "creditTeam_legacy (snd (score m)) (fst (score m)) (\<not> fst (score m) > snd (score m)) ps2
            [fst (team2 m), snd (team2 m)] = Some ps3"
    by blast
  then show ?thesis
    using False ps2(1)
    by (simp add: standingsMatch_legacy_def Let_def ps1_def[symmetric] del: creditTeam_legacy.simps)
qed

lemma standingsLoop_legacy_Some: "\<exists>ps'. standingsLoop_legacy ps ms = Some ps'"
proof (induction ms arbitrary: ps)
  case Nil
  then show ?case by simp
next
  case (Cons m ms)
  from standingsMatch_legacy_Some[of ps m] obtain ps1 where
    "standingsMatch_legacy ps m = Some ps1" by blast
  then show ?case using Cons.IH[of ps1] by simp
qed

text \<open>
  C9. \<open>calculateStandings\<close> ignores matches with equal scores: on every match list it
  returns the result it returns on the sublist of the matches with unequal scores (so a
  draw adds to no accumulator and to no match-detail list and creates no row), and on a
  list of draws only it returns the empty standings. The same holds for
  \<open>calculateStandings\<close> of the earlier tournament page, however its \<open>winRate\<close> is rounded.
\<close>

theorem draws_ignored:
  "(\<exists>rows. calculateStandings f ms = Some rows
        \<and> calculateStandings f (filter (\<lambda>m. fst (score m) \<noteq> snd (score m)) ms) = Some rows)
   \<and> (\<exists>rows. calculateStandings_legacy pct ms = Some rows
        \<and> calculateStandings_legacy pct (filter (\<lambda>m. fst (score m) \<noteq> snd (score m)) ms) = Some rows)
   \<and> ((\<forall>m\<in>set ms. fst (score m) = snd (score m)) \<longrightarrow>
         calculateStandings f ms = Some [] \<and> calculateStandings_legacy pct ms = Some [])"
proof -
  have a: "calculateStandings f (filter (\<lambda>m. fst (score m) \<noteq> snd (score m)) ms)
             = calculateStandings f ms"
    by (simp add: calculateStandings_def standingsLoop_skip_draws)
  have b: "calculateStandings_legacy pct (filter (\<lambda>m. fst (score m) \<noteq> snd (score m)) ms)
             = calculateStandings_legacy pct ms"
    by (simp add: calculateStandings_legacy_def standingsLoop_legacy_skip_draws)
  from standings_unsorted[of ms f] obtain rows where r: "calculateStandings f ms = Some rows"
    by blast
  from standingsLoop_legacy_Some[of "[]" ms] obtain rows' where
    r': "calculateStandings_legacy pct ms = Some rows'"
    by (auto simp: calculateStandings_legacy_def)
  have c: "calculateStandings f ms = Some [] \<and> calculateStandings_legacy pct ms = Some []"
    if "\<forall>m\<in>set ms. fst (score m) = snd (score m)"
  proof -
    have "calculateStandings f [] = Some []" "calculateStandings_legacy pct [] = Some []"
      by (simp_all add: calculateStandings_def calculateStandings_legacy_def sortBy_def)
    then show ?thesis
      using a b filter_all_draws[OF that] by simp
  qed
  show ?thesis using a b r r' c by simp
qed

theorem draws_ignored_witness:
  "fst (score drawMatch) = snd (score drawMatch)
   \<and> (\<exists>rows. calculateStandings FilterAll [groupMatch1, drawMatch, groupMatch2] = Some rows
        \<and> calculateStandings FilterAll [groupMatch1, groupMatch2] = Some rows
        \<and> map name rows = [[66], [65], [68], [67]])
   \<and> (\<exists>rows. calculateStandings_legacy exactPercent [groupMatch1, drawMatch, groupMatch2] = Some rows
        \<and> calculateStandings_legacy exactPercent [groupMatch1, groupMatch2] = Some rows)
   \<and> calculateStandings FilterAll [drawMatch] = Some []
   \<and> calculateStandings_legacy exactPercent [drawMatch] = Some []"
proof -
  have d: "fst (score drawMatch) = snd (score drawMatch)"
    by (simp add: drawMatch_def)
  have f: "filter (\<lambda>m. fst (score m) \<noteq> snd (score m)) [groupMatch1, drawMatch, groupMatch2]
      = [groupMatch1, groupMatch2]"
    by (simp add: groupMatch1_def groupMatch2_def drawMatch_def)
  have all: "\<forall>m\<in>set [drawMatch]. fst (score m) = snd (score m)"
    using d by simp
  note th = draws_ignored[of FilterAll "[groupMatch1, drawMatch, groupMatch2]" exactPercent, unfolded f]
  from th[THEN conjunct1] obtain rows where
    a: "calculateStandings FilterAll [groupMatch1, drawMatch, groupMatch2] = Some rows"
       "calculateStandings FilterAll [groupMatch1, groupMatch2] = Some rows"
    by (elim exE conjE)
  from th[THEN conjunct2, THEN conjunct1] obtain rows' where
    b: "calculateStandings_legacy exactPercent [groupMatch1, drawMatch, groupMatch2] = Some rows'"
       "calculateStandings_legacy exactPercent [groupMatch1, groupMatch2] = Some rows'"
    by (elim exE conjE)
  from group12_names a(2) have n: "map name rows = [[66], [65], [68], [67]]" by simp
  note e = draws_ignored[of FilterAll "[drawMatch]" exactPercent, THEN conjunct2, THEN conjunct2,
      THEN mp, OF all]
  have A: "\<exists>rows. calculateStandings FilterAll [groupMatch1, drawMatch, groupMatch2] = Some rows
        \<and> calculateStandings FilterAll [groupMatch1, groupMatch2] = Some rows
        \<and> map name rows = [[66], [65], [68], [67]]"
    by (intro exI[of _ rows] conjI) (fact a n)+
  have B: "\<exists>rows. calculateStandings_legacy exactPercent [groupMatch1, drawMatch, groupMatch2] = Some rows
        \<and> calculateStandings_legacy exactPercent [groupMatch1, groupMatch2] = Some rows"
    by (intro exI[of _ rows'] conjI) (fact b)+
  from d A B e[THEN conjunct1] e[THEN conjunct2] show ?thesis
    by (intro conjI)
qed

end
